theory Spec2Isabelle
  imports Main "HOL-Library.Word"
begin

section \<open>PayStream: data model\<close>

text \<open>
  A shallow embedding of the Solidity contracts \<^verbatim>\<open>StreamManager.sol\<close> and
  \<^verbatim>\<open>YieldVault.sol\<close> (pragma 0.8.9: every arithmetic operation outside an
  \<^verbatim>\<open>unchecked\<close> block reverts with a panic on overflow or underflow).
  Solidity integers are words of their width; a revert is the \<open>Inl\<close> of a sum, and since
  a revert rolls the whole transaction back, a failed call returns no state: the caller
  keeps the world it started from.
\<close>

type_synonym address = "160 word"
type_synonym u256 = "256 word"
type_synonym u128 = "128 word"
type_synonym u64 = "64 word"
type_synonym u32 = "32 word"

datatype error =
    ZeroAddress
  | ZeroAmount
  | StreamInactive u256
  | InvalidRate u128
  | InvalidTaxBps u32
  | TransferFailed
  | SignatureExpired
  | InvalidNonce
  | InvalidSignature
  | InsufficientSponsorship
  | NothingToWithdraw
  | InvalidBatchSize
  | ReleaseInPast
  | AlreadyPaused u256
  | NotPaused u256
  | InsufficientBalance u256 u256
  | RateTooHigh u256
  | Panic
  | Revert string

datatype event =
    TreasuryDeposited address u256
  | SponsorshipDeposited address u256
  | StreamCreated u256 address
  | Withdrawn u256 address u256 u256 u256
  | WithdrawnSigned u256 address address u256
  | BonusScheduled u256 u256 u64
  | StreamPaused u256
  | StreamResumed u256
  | StreamCancelled u256
  | Deposit address u256
  | VaultWithdraw address u256
  | YieldUpdated u256 u256
  | YieldRateChanged u256 u256
  | OwnershipTransferred address address
  | Transfer address address u256
  | Approval address address u256

record Stream =
  employee :: address
  ratePerSecond :: u128
  lastCheckpoint :: u64
  taxBps :: u32
  active :: bool
  paused :: bool
  bonusAmount :: u256
  bonusReleaseTime :: u64
  bonusClaimed :: bool

record StreamInput =
  inp_employee :: address
  inp_ratePerSecond :: u128
  inp_taxBps :: u32

text \<open>The part of the transaction context the contracts read: \<^verbatim>\<open>block.timestamp\<close>
  and \<^verbatim>\<open>msg.sender\<close>.\<close>

record env =
  timestamp :: u256
  sender :: address

text \<open>
  The world: the storage of the one StreamManager (with its own address \<open>sm_self\<close> and
  its Ownable owner), of the one YieldVault it points to (at address \<open>yieldVault\<close>), the
  balances and allowances of the HLUSD token, and the log of emitted events.
\<close>

record world =
  sm_self :: address
  sm_owner :: address
  taxVault :: address
  yieldVault :: address
  nextStreamId :: u256
  sponsorshipPool :: u256
  streams :: "u256 \<Rightarrow> Stream"
  nonces :: "address \<Rightarrow> u256"
  yv_owner :: address
  totalPrincipal :: u256
  yieldRateBps :: u256
  lastUpdate :: u256
  accumulatedYield :: u256
  balances :: "address \<Rightarrow> u256"
  allowances :: "address \<Rightarrow> address \<Rightarrow> u256"
  events :: "event list"

definition MAX_BATCH :: nat where
  "MAX_BATCH = 200"

definition MAX_TAX_BPS :: u32 where
  "MAX_TAX_BPS = 10000"

definition MAX_RATE :: u128 where
  "MAX_RATE = 1000000000000000000000"

definition MAX_YIELD_BPS :: u256 where
  "MAX_YIELD_BPS = 10000"

section \<open>Checked arithmetic and events\<close>

definition checked_add :: "u256 \<Rightarrow> u256 \<Rightarrow> error + u256" where
  "checked_add a b = (if unat a + unat b < 2 ^ 256 then Inr (a + b) else Inl Panic)"

definition checked_sub :: "u256 \<Rightarrow> u256 \<Rightarrow> error + u256" where
  "checked_sub a b = (if unat b \<le> unat a then Inr (a - b) else Inl Panic)"

definition checked_mul :: "u256 \<Rightarrow> u256 \<Rightarrow> error + u256" where
  "checked_mul a b = (if unat a * unat b < 2 ^ 256 then Inr (a * b) else Inl Panic)"

definition emit :: "event \<Rightarrow> world \<Rightarrow> world" where
  "emit ev w = w\<lparr>events := events w @ [ev]\<rparr>"

section \<open>The HLUSD token\<close>

text \<open>
  The contracts hold the token as an \<^verbatim>\<open>IERC20\<close>; the repository's token
  (\<^verbatim>\<open>HLUSDMock\<close>) inherits OpenZeppelin's ERC20, whose code is a dependency and not a
  file of the repository. Its behaviour is written out here: a transfer reverts on a short
  balance or a zero address and otherwise returns true and logs a \<open>Transfer\<close> event. The
  token makes no call back into the other contracts, so the reentrancy guard of
  \<^verbatim>\<open>withdraw\<close> and \<^verbatim>\<open>withdrawSigned\<close> never fires and is left out.
\<close>

definition erc20_move :: "address \<Rightarrow> address \<Rightarrow> u256 \<Rightarrow> world \<Rightarrow> error + world" where
  "erc20_move src dst amount w =
    (if src = 0 then Inl (Revert ''ERC20: transfer from the zero address'')
     else if dst = 0 then Inl (Revert ''ERC20: transfer to the zero address'')
     else if balances w src < amount then Inl (Revert ''ERC20: transfer amount exceeds balance'')
     else
       let b1 = (balances w)(src := balances w src - amount) in
       case checked_add (b1 dst) amount of
         Inl e \<Rightarrow> Inl e
       | Inr nb \<Rightarrow> Inr (emit (Transfer src dst amount) (w\<lparr>balances := b1(dst := nb)\<rparr>)))"

definition erc20_transfer :: "address \<Rightarrow> address \<Rightarrow> u256 \<Rightarrow> world \<Rightarrow> error + (bool \<times> world)" where
  "erc20_transfer caller dst amount w =
    (case erc20_move caller dst amount w of
       Inl e \<Rightarrow> Inl e
     | Inr w' \<Rightarrow> Inr (True, w'))"

definition erc20_set_allowance :: "address \<Rightarrow> address \<Rightarrow> u256 \<Rightarrow> world \<Rightarrow> error + world" where
  "erc20_set_allowance holder spender amount w =
    (if holder = 0 then Inl (Revert ''ERC20: approve from the zero address'')
     else if spender = 0 then Inl (Revert ''ERC20: approve to the zero address'')
     else Inr (emit (Approval holder spender amount)
            (w\<lparr>allowances := (allowances w)(holder := (allowances w holder)(spender := amount))\<rparr>)))"

definition erc20_approve :: "address \<Rightarrow> address \<Rightarrow> u256 \<Rightarrow> world \<Rightarrow> error + (bool \<times> world)" where
  "erc20_approve caller spender amount w =
    (case erc20_set_allowance caller spender amount w of
       Inl e \<Rightarrow> Inl e
     | Inr w' \<Rightarrow> Inr (True, w'))"

definition erc20_transferFrom ::
  "address \<Rightarrow> address \<Rightarrow> address \<Rightarrow> u256 \<Rightarrow> world \<Rightarrow> error + (bool \<times> world)" where
  "erc20_transferFrom caller src dst amount w =
    (let cur = allowances w src caller in
     case (if cur = - 1 then Inr w
           else if cur < amount then Inl (Revert ''ERC20: insufficient allowance'')
           else erc20_set_allowance src caller (cur - amount) w) of
       Inl e \<Rightarrow> Inl e
     | Inr w1 \<Rightarrow>
        (case erc20_move src dst amount w1 of
           Inl e \<Rightarrow> Inl e
         | Inr w2 \<Rightarrow> Inr (True, w2)))"

section \<open>YieldVault\<close>

text \<open>\<^verbatim>\<open>_pendingYield\<close>: a view. The divisor \<^verbatim>\<open>10000 * 365 days\<close> is the
  constant 315360000000.\<close>

definition pendingYield :: "env \<Rightarrow> world \<Rightarrow> error + u256" where
  "pendingYield env w =
    (if totalPrincipal w = 0 \<or> yieldRateBps w = 0 then Inr 0
     else
       case checked_sub (timestamp env) (lastUpdate w) of
         Inl e \<Rightarrow> Inl e
       | Inr elapsed \<Rightarrow>
          (if elapsed = 0 then Inr 0
           else
             (case checked_mul (totalPrincipal w) (yieldRateBps w) of
                Inl e \<Rightarrow> Inl e
              | Inr m1 \<Rightarrow>
                 (case checked_mul m1 elapsed of
                    Inl e \<Rightarrow> Inl e
                  | Inr m2 \<Rightarrow> Inr (m2 div 315360000000)))))"

definition simulateYield :: "env \<Rightarrow> world \<Rightarrow> error + world" where
  "simulateYield env w =
    (case pendingYield env w of
       Inl e \<Rightarrow> Inl e
     | Inr pending \<Rightarrow>
        (case (if pending > 0 then
                 (case checked_add (accumulatedYield w) pending of
                    Inl e \<Rightarrow> Inl e
                  | Inr y \<Rightarrow> Inr (emit (YieldUpdated pending y) (w\<lparr>accumulatedYield := y\<rparr>)))
               else Inr w) of
           Inl e \<Rightarrow> Inl e
         | Inr w1 \<Rightarrow> Inr (w1\<lparr>lastUpdate := timestamp env\<rparr>)))"

definition currentBalance :: "env \<Rightarrow> world \<Rightarrow> error + u256" where
  "currentBalance env w =
    (case pendingYield env w of
       Inl e \<Rightarrow> Inl e
     | Inr pending \<Rightarrow>
        (case checked_add (totalPrincipal w) (accumulatedYield w) of
           Inl e \<Rightarrow> Inl e
         | Inr pa \<Rightarrow> checked_add pa pending))"

definition yv_deposit :: "env \<Rightarrow> u256 \<Rightarrow> world \<Rightarrow> error + world" where
  "yv_deposit env amount w =
    (if sender env \<noteq> yv_owner w then Inl (Revert ''Ownable: caller is not the owner'')
     else if amount = 0 then Inl ZeroAmount
     else
       case simulateYield env w of
         Inl e \<Rightarrow> Inl e
       | Inr w1 \<Rightarrow>
          (case checked_add (totalPrincipal w1) amount of
             Inl e \<Rightarrow> Inl e
           | Inr p \<Rightarrow>
              (case erc20_transferFrom (yieldVault w1) (sender env) (yieldVault w1) amount
                      (w1\<lparr>totalPrincipal := p\<rparr>) of
                 Inl e \<Rightarrow> Inl e
               | Inr (ok, w2) \<Rightarrow>
                  if \<not> ok then Inl (Revert ''YieldVault: transferFrom failed'')
                  else Inr (emit (Deposit (sender env) amount) w2))))"

text \<open>\<^verbatim>\<open>YieldVault.withdraw\<close>: yield is consumed first, then principal.\<close>

definition yv_withdraw :: "env \<Rightarrow> u256 \<Rightarrow> address \<Rightarrow> world \<Rightarrow> error + world" where
  "yv_withdraw env amount dst w =
    (if sender env \<noteq> yv_owner w then Inl (Revert ''Ownable: caller is not the owner'')
     else if amount = 0 then Inl ZeroAmount
     else if dst = 0 then Inl ZeroAddress
     else
       case simulateYield env w of
         Inl e \<Rightarrow> Inl e
       | Inr w1 \<Rightarrow>
          (case checked_add (totalPrincipal w1) (accumulatedYield w1) of
             Inl e \<Rightarrow> Inl e
           | Inr available \<Rightarrow>
              if amount > available then Inl (InsufficientBalance amount available)
              else
               (case (if amount \<le> accumulatedYield w1 then
                        (case checked_sub (accumulatedYield w1) amount of
                           Inl e \<Rightarrow> Inl e
                         | Inr y \<Rightarrow> Inr (w1\<lparr>accumulatedYield := y\<rparr>))
                      else
                        (case checked_sub amount (accumulatedYield w1) of
                           Inl e \<Rightarrow> Inl e
                         | Inr remainder \<Rightarrow>
                            (case checked_sub (totalPrincipal w1) remainder of
                               Inl e \<Rightarrow> Inl e
                             | Inr p \<Rightarrow> Inr (w1\<lparr>accumulatedYield := 0, totalPrincipal := p\<rparr>)))) of
                  Inl e \<Rightarrow> Inl e
                | Inr w2 \<Rightarrow>
                   (case erc20_transfer (yieldVault w2) dst amount w2 of
                      Inl e \<Rightarrow> Inl e
                    | Inr (ok, w3) \<Rightarrow>
                       if \<not> ok then Inl (Revert ''YieldVault: transfer failed'')
                       else Inr (emit (VaultWithdraw dst amount) w3)))))"

definition setYieldRate :: "env \<Rightarrow> u256 \<Rightarrow> world \<Rightarrow> error + world" where
  "setYieldRate env bps w =
    (if sender env \<noteq> yv_owner w then Inl (Revert ''Ownable: caller is not the owner'')
     else if bps > MAX_YIELD_BPS then Inl (RateTooHigh bps)
     else
       case simulateYield env w of
         Inl e \<Rightarrow> Inl e
       | Inr w1 \<Rightarrow> Inr (emit (YieldRateChanged (yieldRateBps w1) bps) (w1\<lparr>yieldRateBps := bps\<rparr>)))"

section \<open>StreamManager\<close>

definition validateStreamParams :: "address \<Rightarrow> u128 \<Rightarrow> u32 \<Rightarrow> error + unit" where
  "validateStreamParams emp rate tax =
    (if emp = 0 then Inl ZeroAddress
     else if rate = 0 \<or> rate > MAX_RATE then Inl (InvalidRate rate)
     else if tax > MAX_TAX_BPS then Inl (InvalidTaxBps tax)
     else Inr ())"

text \<open>The stream both creation paths store; \<^verbatim>\<open>id = nextStreamId++\<close> is a checked
  increment.\<close>

definition new_stream :: "address \<Rightarrow> u128 \<Rightarrow> u64 \<Rightarrow> u32 \<Rightarrow> Stream" where
  "new_stream emp rate checkpoint tax =
    \<lparr>employee = emp, ratePerSecond = rate, lastCheckpoint = checkpoint, taxBps = tax,
     active = True, paused = False, bonusAmount = 0, bonusReleaseTime = 0,
     bonusClaimed = False\<rparr>"

definition createStream :: "env \<Rightarrow> address \<Rightarrow> u128 \<Rightarrow> u32 \<Rightarrow> world \<Rightarrow> error + world" where
  "createStream env emp rate tax w =
    (if sender env \<noteq> sm_owner w then Inl (Revert ''Ownable: caller is not the owner'')
     else
       case validateStreamParams emp rate tax of
         Inl e \<Rightarrow> Inl e
       | Inr _ \<Rightarrow>
          (case checked_add (nextStreamId w) 1 of
             Inl e \<Rightarrow> Inl e
           | Inr n \<Rightarrow>
              Inr (emit (StreamCreated (nextStreamId w) emp)
                (w\<lparr>nextStreamId := n,
                   streams := (streams w)(nextStreamId w :=
                     new_stream emp rate (ucast (timestamp env)) tax)\<rparr>))))"

text \<open>The loop of \<^verbatim>\<open>batchCreateStreams\<close>, by recursion on the inputs still to be
  processed.\<close>

fun batch_loop :: "u64 \<Rightarrow> StreamInput list \<Rightarrow> world \<Rightarrow> error + world" where
  "batch_loop checkpoint [] w = Inr w"
| "batch_loop checkpoint (inp # rest) w =
    (case validateStreamParams (inp_employee inp) (inp_ratePerSecond inp) (inp_taxBps inp) of
       Inl e \<Rightarrow> Inl e
     | Inr _ \<Rightarrow>
        (case checked_add (nextStreamId w) 1 of
           Inl e \<Rightarrow> Inl e
         | Inr n \<Rightarrow>
            batch_loop checkpoint rest
              (emit (StreamCreated (nextStreamId w) (inp_employee inp))
                (w\<lparr>nextStreamId := n,
                   streams := (streams w)(nextStreamId w :=
                     new_stream (inp_employee inp) (inp_ratePerSecond inp) checkpoint
                       (inp_taxBps inp))\<rparr>))))"

definition batchCreateStreams :: "env \<Rightarrow> StreamInput list \<Rightarrow> world \<Rightarrow> error + world" where
  "batchCreateStreams env inputs w =
    (if sender env \<noteq> sm_owner w then Inl (Revert ''Ownable: caller is not the owner'')
     else if length inputs = 0 \<or> length inputs > MAX_BATCH then Inl InvalidBatchSize
     else batch_loop (ucast (timestamp env)) inputs w)"

definition scheduleBonus :: "env \<Rightarrow> u256 \<Rightarrow> u256 \<Rightarrow> u64 \<Rightarrow> world \<Rightarrow> error + world" where
  "scheduleBonus env streamId amount releaseTime w =
    (if sender env \<noteq> sm_owner w then Inl (Revert ''Ownable: caller is not the owner'')
     else if \<not> active (streams w streamId) then Inl (StreamInactive streamId)
     else if amount = 0 then Inl ZeroAmount
     else if ucast releaseTime \<le> timestamp env then Inl ReleaseInPast
     else Inr (emit (BonusScheduled streamId amount releaseTime)
            (w\<lparr>streams := (streams w)(streamId := (streams w streamId)
               \<lparr>bonusAmount := amount, bonusReleaseTime := releaseTime,
                bonusClaimed := False\<rparr>)\<rparr>)))"

definition pauseStream :: "env \<Rightarrow> u256 \<Rightarrow> world \<Rightarrow> error + world" where
  "pauseStream env streamId w =
    (if sender env \<noteq> sm_owner w then Inl (Revert ''Ownable: caller is not the owner'')
     else if \<not> active (streams w streamId) then Inl (StreamInactive streamId)
     else if paused (streams w streamId) then Inl (AlreadyPaused streamId)
     else Inr (emit (StreamPaused streamId)
            (w\<lparr>streams := (streams w)(streamId := (streams w streamId)
               \<lparr>lastCheckpoint := ucast (timestamp env), paused := True\<rparr>)\<rparr>)))"

definition resumeStream :: "env \<Rightarrow> u256 \<Rightarrow> world \<Rightarrow> error + world" where
  "resumeStream env streamId w =
    (if sender env \<noteq> sm_owner w then Inl (Revert ''Ownable: caller is not the owner'')
     else if \<not> active (streams w streamId) then Inl (StreamInactive streamId)
     else if \<not> paused (streams w streamId) then Inl (NotPaused streamId)
     else Inr (emit (StreamResumed streamId)
            (w\<lparr>streams := (streams w)(streamId := (streams w streamId)
               \<lparr>lastCheckpoint := ucast (timestamp env), paused := False\<rparr>)\<rparr>)))"

definition cancelStream :: "env \<Rightarrow> u256 \<Rightarrow> world \<Rightarrow> error + world" where
  "cancelStream env streamId w =
    (if sender env \<noteq> sm_owner w then Inl (Revert ''Ownable: caller is not the owner'')
     else if \<not> active (streams w streamId) then Inl (StreamInactive streamId)
     else Inr (emit (StreamCancelled streamId)
            (w\<lparr>streams := (streams w)(streamId := (streams w streamId)
               \<lparr>lastCheckpoint := ucast (timestamp env), active := False\<rparr>)\<rparr>)))"

text \<open>
  \<^verbatim>\<open>_executeWithdraw\<close>, the core shared by both withdrawal paths. The vault is called
  with the StreamManager as \<^verbatim>\<open>msg.sender\<close>; the employee is read from storage after
  the checkpoint has been written.
\<close>

definition executeWithdraw :: "env \<Rightarrow> u256 \<Rightarrow> world \<Rightarrow> error + world" where
  "executeWithdraw env streamId w =
    (let s = streams w streamId in
     if \<not> active s then Inl (StreamInactive streamId)
     else if paused s then Inl (AlreadyPaused streamId)
     else
       case checked_sub (timestamp env) (ucast (lastCheckpoint s)) of
         Inl e \<Rightarrow> Inl e
       | Inr elapsed \<Rightarrow>
       (case checked_mul (ucast (ratePerSecond s)) elapsed of
         Inl e \<Rightarrow> Inl e
       | Inr accrued \<Rightarrow>
       (let claim = (bonusAmount s > 0 \<and> timestamp env \<ge> ucast (bonusReleaseTime s)
                       \<and> \<not> bonusClaimed s);
            bonus = (if claim then bonusAmount s else 0);
            s1 = (if claim then s\<lparr>bonusClaimed := True\<rparr> else s)
        in
        case checked_add accrued bonus of
         Inl e \<Rightarrow> Inl e
       | Inr gross \<Rightarrow>
       (if gross = 0 then Inl NothingToWithdraw
        else
        (case checked_mul accrued (ucast (taxBps s1)) of
         Inl e \<Rightarrow> Inl e
       | Inr taxed \<Rightarrow>
       (let tax = taxed div 10000 in
        case checked_sub gross tax of
         Inl e \<Rightarrow> Inl e
       | Inr net \<Rightarrow>
       (case checked_add net tax of
         Inl e \<Rightarrow> Inl e
       | Inr totalPayout \<Rightarrow>
       (let s2 = s1\<lparr>lastCheckpoint := ucast (timestamp env)\<rparr>;
            w1 = w\<lparr>streams := (streams w)(streamId := s2)\<rparr>
        in
        case yv_withdraw (env\<lparr>sender := sm_self w1\<rparr>) totalPayout (sm_self w1) w1 of
         Inl e \<Rightarrow> Inl e
       | Inr w2 \<Rightarrow>
       (case (if tax > 0 then
                (case erc20_transfer (sm_self w2) (taxVault w2) tax w2 of
                   Inl e \<Rightarrow> Inl e
                 | Inr (ok, w3) \<Rightarrow> if \<not> ok then Inl TransferFailed else Inr w3)
              else Inr w2) of
         Inl e \<Rightarrow> Inl e
       | Inr w3 \<Rightarrow>
       (case erc20_transfer (sm_self w3) (employee (streams w3 streamId)) net w3 of
         Inl e \<Rightarrow> Inl e
       | Inr (ok, w4) \<Rightarrow>
          if \<not> ok then Inl TransferFailed
          else Inr (emit (Withdrawn streamId (employee (streams w4 streamId)) gross tax net)
                 w4)))))))))))"

definition withdraw :: "env \<Rightarrow> u256 \<Rightarrow> world \<Rightarrow> error + world" where
  "withdraw env streamId w = executeWithdraw env streamId w"

text \<open>
  \<^verbatim>\<open>digest.recover(signature)\<close> is OpenZeppelin's ECDSA over a keccak256 digest of
  \<open>(streamId, nonce, deadline)\<close> under the deployment's domain separator. The hash and the
  curve are not modelled: the recovery is a parameter that, given the three signed fields
  and the signature bytes, returns the signer or the library's revert.
\<close>

type_synonym recovery = "u256 \<Rightarrow> u256 \<Rightarrow> u256 \<Rightarrow> 8 word list \<Rightarrow> error + address"

definition withdrawSigned ::
  "recovery \<Rightarrow> env \<Rightarrow> u256 \<Rightarrow> u256 \<Rightarrow> u256 \<Rightarrow> u256 \<Rightarrow> 8 word list \<Rightarrow> world \<Rightarrow> error + world" where
  "withdrawSigned recover env streamId nonce deadline relayerFee signature w =
    (if timestamp env > deadline then Inl SignatureExpired
     else
       let emp = employee (streams w streamId) in
       if nonce \<noteq> nonces w emp then Inl InvalidNonce
       else
         case recover streamId nonce deadline signature of
           Inl e \<Rightarrow> Inl e
         | Inr signer \<Rightarrow>
         (if signer \<noteq> emp then Inl InvalidSignature
          else
          (case checked_add nonce 1 of
            Inl e \<Rightarrow> Inl e
          | Inr n1 \<Rightarrow>
          (case executeWithdraw env streamId (w\<lparr>nonces := (nonces w)(emp := n1)\<rparr>) of
            Inl e \<Rightarrow> Inl e
          | Inr w2 \<Rightarrow>
          (case (if relayerFee > 0 then
                   (if sponsorshipPool w2 < relayerFee then Inl InsufficientSponsorship
                    else
                     (case checked_sub (sponsorshipPool w2) relayerFee of
                        Inl e \<Rightarrow> Inl e
                      | Inr pool \<Rightarrow>
                         (case erc20_transfer (sm_self w2) (sender env) relayerFee
                                 (w2\<lparr>sponsorshipPool := pool\<rparr>) of
                            Inl e \<Rightarrow> Inl e
                          | Inr (ok, w3) \<Rightarrow> if \<not> ok then Inl TransferFailed else Inr w3)))
                 else Inr w2) of
            Inl e \<Rightarrow> Inl e
          | Inr w4 \<Rightarrow>
             Inr (emit (WithdrawnSigned streamId emp (sender env) relayerFee) w4))))))"

subsection \<open>Views\<close>

definition accruedSalary :: "env \<Rightarrow> u256 \<Rightarrow> world \<Rightarrow> error + u256" where
  "accruedSalary env streamId w =
    (let s = streams w streamId in
     case checked_sub (timestamp env) (ucast (lastCheckpoint s)) of
       Inl e \<Rightarrow> Inl e
     | Inr elapsed \<Rightarrow> checked_mul (ucast (ratePerSecond s)) elapsed)"

definition treasuryBalance :: "env \<Rightarrow> world \<Rightarrow> error + u256" where
  "treasuryBalance env w = currentBalance env w"

definition netWithdrawable :: "env \<Rightarrow> u256 \<Rightarrow> world \<Rightarrow> error + u256" where
  "netWithdrawable env streamId w =
    (let s = streams w streamId in
     case checked_sub (timestamp env) (ucast (lastCheckpoint s)) of
       Inl e \<Rightarrow> Inl e
     | Inr elapsed \<Rightarrow>
     (case checked_mul (ucast (ratePerSecond s)) elapsed of
       Inl e \<Rightarrow> Inl e
     | Inr accrued \<Rightarrow>
     (case checked_mul accrued (ucast (taxBps s)) of
       Inl e \<Rightarrow> Inl e
     | Inr taxed \<Rightarrow>
     (case checked_sub accrued (taxed div 10000) of
       Inl e \<Rightarrow> Inl e
     | Inr net \<Rightarrow>
        if bonusAmount s > 0 \<and> timestamp env \<ge> ucast (bonusReleaseTime s) \<and> \<not> bonusClaimed s
        then checked_add net (bonusAmount s)
        else Inr net))))"

definition streamInfo :: "u256 \<Rightarrow> world \<Rightarrow> Stream" where
  "streamInfo streamId w = streams w streamId"

subsection \<open>Deposits and ownership\<close>

definition depositTreasury :: "env \<Rightarrow> u256 \<Rightarrow> world \<Rightarrow> error + world" where
  "depositTreasury env amount w =
    (if sender env \<noteq> sm_owner w then Inl (Revert ''Ownable: caller is not the owner'')
     else if amount = 0 then Inl ZeroAmount
     else
       case erc20_transferFrom (sm_self w) (sender env) (sm_self w) amount w of
         Inl e \<Rightarrow> Inl e
       | Inr (ok, w1) \<Rightarrow>
          if \<not> ok then Inl TransferFailed
          else
           (case erc20_approve (sm_self w1) (yieldVault w1) amount w1 of
              Inl e \<Rightarrow> Inl e
            | Inr (ok2, w2) \<Rightarrow>
               (case yv_deposit (env\<lparr>sender := sm_self w2\<rparr>) amount w2 of
                  Inl e \<Rightarrow> Inl e
                | Inr w3 \<Rightarrow> Inr (emit (TreasuryDeposited (sender env) amount) w3))))"

definition depositSponsorshipPool :: "env \<Rightarrow> u256 \<Rightarrow> world \<Rightarrow> error + world" where
  "depositSponsorshipPool env amount w =
    (if sender env \<noteq> sm_owner w then Inl (Revert ''Ownable: caller is not the owner'')
     else if amount = 0 then Inl ZeroAmount
     else
       case checked_add (sponsorshipPool w) amount of
         Inl e \<Rightarrow> Inl e
       | Inr pool \<Rightarrow>
          (case erc20_transferFrom (sm_self w) (sender env) (sm_self w) amount
                  (w\<lparr>sponsorshipPool := pool\<rparr>) of
             Inl e \<Rightarrow> Inl e
           | Inr (ok, w1) \<Rightarrow>
              if \<not> ok then Inl TransferFailed
              else Inr (emit (SponsorshipDeposited (sender env) amount) w1)))"

text \<open>The two functions StreamManager inherits from OpenZeppelin's Ownable.\<close>

definition transferOwnership :: "env \<Rightarrow> address \<Rightarrow> world \<Rightarrow> error + world" where
  "transferOwnership env newOwner w =
    (if sender env \<noteq> sm_owner w then Inl (Revert ''Ownable: caller is not the owner'')
     else if newOwner = 0 then Inl (Revert ''Ownable: new owner is the zero address'')
     else Inr (emit (OwnershipTransferred (sm_owner w) newOwner) (w\<lparr>sm_owner := newOwner\<rparr>)))"

definition renounceOwnership :: "env \<Rightarrow> world \<Rightarrow> error + world" where
  "renounceOwnership env w =
    (if sender env \<noteq> sm_owner w then Inl (Revert ''Ownable: caller is not the owner'')
     else Inr (emit (OwnershipTransferred (sm_owner w) 0) (w\<lparr>sm_owner := 0\<rparr>)))"

section \<open>Transactions\<close>

text \<open>Every state-changing entry point of the StreamManager, as one call.\<close>

datatype call =
    Call_depositTreasury u256
  | Call_depositSponsorshipPool u256
  | Call_createStream address u128 u32
  | Call_batchCreateStreams "StreamInput list"
  | Call_scheduleBonus u256 u256 u64
  | Call_pauseStream u256
  | Call_resumeStream u256
  | Call_cancelStream u256
  | Call_withdraw u256
  | Call_withdrawSigned u256 u256 u256 u256 "8 word list"
  | Call_transferOwnership address
  | Call_renounceOwnership

fun exec :: "recovery \<Rightarrow> env \<Rightarrow> call \<Rightarrow> world \<Rightarrow> error + world" where
  "exec r env (Call_depositTreasury a) w = depositTreasury env a w"
| "exec r env (Call_depositSponsorshipPool a) w = depositSponsorshipPool env a w"
| "exec r env (Call_createStream e rate tax) w = createStream env e rate tax w"
| "exec r env (Call_batchCreateStreams inputs) w = batchCreateStreams env inputs w"
| "exec r env (Call_scheduleBonus i a t) w = scheduleBonus env i a t w"
| "exec r env (Call_pauseStream i) w = pauseStream env i w"
| "exec r env (Call_resumeStream i) w = resumeStream env i w"
| "exec r env (Call_cancelStream i) w = cancelStream env i w"
| "exec r env (Call_withdraw i) w = withdraw env i w"
| "exec r env (Call_withdrawSigned i n d fee sg) w = withdrawSigned r env i n d fee sg w"
| "exec r env (Call_transferOwnership a) w = transferOwnership env a w"
| "exec r env (Call_renounceOwnership) w = renounceOwnership env w"

text \<open>A transaction: a reverted call leaves the world as it was.\<close>

definition transact :: "recovery \<Rightarrow> env \<Rightarrow> call \<Rightarrow> world \<Rightarrow> world" where
  "transact r env c w = (case exec r env c w of Inl e \<Rightarrow> w | Inr w' \<Rightarrow> w')"

text \<open>
  Activity outside the StreamManager (token transfers between other parties, calls to the
  vault by its owner) can change every part of the world but the StreamManager's own
  storage.
\<close>

definition same_manager :: "world \<Rightarrow> world \<Rightarrow> bool" where
  "same_manager w w' \<longleftrightarrow>
     sm_self w' = sm_self w \<and> sm_owner w' = sm_owner w \<and> taxVault w' = taxVault w \<and>
     yieldVault w' = yieldVault w \<and> nextStreamId w' = nextStreamId w \<and>
     sponsorshipPool w' = sponsorshipPool w \<and> streams w' = streams w \<and> nonces w' = nonces w"

text \<open>\<open>reach r w w'\<close>: the world \<open>w'\<close> can follow \<open>w\<close> after any number of transactions
  (at any times, from any senders) and of outside activity.\<close>

inductive reach :: "recovery \<Rightarrow> world \<Rightarrow> world \<Rightarrow> bool" for r :: recovery and w :: world where
  reach_refl: "reach r w w"
| reach_call: "reach r w w1 \<Longrightarrow> reach r w (transact r env c w1)"
| reach_outside: "reach r w w1 \<Longrightarrow> same_manager w1 w2 \<Longrightarrow> reach r w w2"

section \<open>The specification's formulas and a sample world\<close>

text \<open>The yield formula as the specification words it:
  \<open>pending = principal \<times> rateBps \<times> elapsedSeconds / (10000 \<times> secondsPerYear)\<close>.\<close>

definition spec_pendingYield :: "nat \<Rightarrow> nat \<Rightarrow> nat \<Rightarrow> nat" where
  "spec_pendingYield princ rateBps elapsedSeconds =
     princ * rateBps * elapsedSeconds div (10000 * 31536000)"

text \<open>
  The bonus test of \<^verbatim>\<open>_executeWithdraw\<close>, and the stream a successful withdrawal
  stores: the bonus marked claimed when it was claimable, the checkpoint moved to now.
\<close>

definition claimable :: "env \<Rightarrow> Stream \<Rightarrow> bool" where
  "claimable env s \<longleftrightarrow>
     bonusAmount s > 0 \<and> timestamp env \<ge> ucast (bonusReleaseTime s) \<and> \<not> bonusClaimed s"

definition settled :: "env \<Rightarrow> Stream \<Rightarrow> Stream" where
  "settled env s =
     (if claimable env s then s\<lparr>bonusClaimed := True\<rparr> else s)
       \<lparr>lastCheckpoint := ucast (timestamp env)\<rparr>"

text \<open>
  The quantities of a withdrawal as the specification words them: accrued salary
  \<open>ratePerSecond \<times> (now - lastCheckpoint)\<close>, the claimable bonus, the tax on the accrued
  salary alone; and the events of the fund movements of one withdrawal (the pull from the
  vault, the tax to the tax collector when it is not zero, the net to the employee).
\<close>

definition spec_accrued :: "env \<Rightarrow> Stream \<Rightarrow> nat" where
  "spec_accrued env s =
     unat (ratePerSecond s) * (unat (timestamp env) - unat (lastCheckpoint s))"

definition spec_claimableBonus :: "env \<Rightarrow> Stream \<Rightarrow> nat" where
  "spec_claimableBonus env s =
     (if 0 < unat (bonusAmount s) \<and> unat (bonusReleaseTime s) \<le> unat (timestamp env)
          \<and> \<not> bonusClaimed s
      then unat (bonusAmount s) else 0)"

definition spec_tax :: "nat \<Rightarrow> nat \<Rightarrow> nat" where
  "spec_tax accrued bps = accrued * bps div 10000"


text \<open>
  The validation rules of stream creation as the specification words them (non-zero
  employee, \<open>0 < ratePerSecond \<le> MAX_RATE\<close>, \<open>taxBps \<le> 10000\<close>), and the stream a
  batch entry creates at a given checkpoint.
\<close>

definition spec_valid_entry :: "StreamInput \<Rightarrow> bool" where
  "spec_valid_entry inp \<longleftrightarrow>
     inp_employee inp \<noteq> 0 \<and> 0 < unat (inp_ratePerSecond inp)
     \<and> unat (inp_ratePerSecond inp) \<le> 1000 * 10 ^ 18 \<and> unat (inp_taxBps inp) \<le> 10000"

definition stream_of :: "u64 \<Rightarrow> StreamInput \<Rightarrow> Stream" where
  "stream_of checkpoint inp =
     new_stream (inp_employee inp) (inp_ratePerSecond inp) checkpoint (inp_taxBps inp)"

text \<open>
  The checks \<^verbatim>\<open>withdrawSigned\<close> makes before it touches the stream, in the order of
  the source: the deadline, the nonce, the recovery of the signer, the signer's identity.
  \<open>None\<close> when the request passes all of them, otherwise the error of the first that
  fails.
\<close>

definition signature_checks ::
  "recovery \<Rightarrow> env \<Rightarrow> u256 \<Rightarrow> u256 \<Rightarrow> u256 \<Rightarrow> 8 word list \<Rightarrow> world \<Rightarrow> error option" where
  "signature_checks r env streamId nonce deadline signature w =
    (if timestamp env > deadline then Some SignatureExpired
     else if nonce \<noteq> nonces w (employee (streams w streamId)) then Some InvalidNonce
     else
       case r streamId nonce deadline signature of
         Inl e \<Rightarrow> Some e
       | Inr signer \<Rightarrow>
          if signer \<noteq> employee (streams w streamId) then Some InvalidSignature else None)"

text \<open>Replacing the nonce table, as one operation on worlds.\<close>

definition nset :: "(address \<Rightarrow> u256) \<Rightarrow> world \<Rightarrow> world" where
  "nset X w = w\<lparr>nonces := X\<rparr>"

text \<open>
  A concrete world for evaluating the model: the StreamManager at address 1 owned by 2,
  the tax collector at 3, the vault at 4 (owned by the StreamManager, holding 100000 at
  500 bps per year), a sponsorship pool of 50, and stream 0 paying employee 14 one unit
  per second at 500 bps tax since time 0.
\<close>

definition empty_stream :: Stream where
  "empty_stream = \<lparr>employee = 0, ratePerSecond = 0, lastCheckpoint = 0, taxBps = 0,
     active = False, paused = False, bonusAmount = 0, bonusReleaseTime = 0,
     bonusClaimed = False\<rparr>"

definition demo :: world where
  "demo = \<lparr>sm_self = 1, sm_owner = 2, taxVault = 3, yieldVault = 4, nextStreamId = 1,
     sponsorshipPool = 50, streams = (\<lambda>_. empty_stream)(0 := new_stream 14 1 0 500),
     nonces = (\<lambda>_. 0), yv_owner = 1, totalPrincipal = 100000, yieldRateBps = 500,
     lastUpdate = 0, accumulatedYield = 0,
     balances = (\<lambda>_. 0)(4 := 100000, 1 := 50), allowances = (\<lambda>_ _. 0), events = []\<rparr>"

definition at_time :: "nat \<Rightarrow> address \<Rightarrow> env" where
  "at_time t a = \<lparr>timestamp = of_nat t, sender = a\<rparr>"

text \<open>The same world with the two lifecycle flags of one stream set at will.\<close>

definition with_flags :: "bool \<Rightarrow> bool \<Rightarrow> u256 \<Rightarrow> world \<Rightarrow> world" where
  "with_flags a p streamId w =
     w\<lparr>streams := (streams w)(streamId := (streams w streamId)\<lparr>active := a, paused := p\<rparr>)\<rparr>"

text \<open>A stand-in for signature recovery in examples: the first byte of the signature
  names the signer.\<close>

definition demo_recover :: recovery where
  "demo_recover streamId nonce deadline signature =
     (case signature of
        [] \<Rightarrow> Inl (Revert ''ECDSA: invalid signature length'')
      | b # _ \<Rightarrow> Inr (ucast b))"

text \<open>The sample world after stream 0 is paused at time 100, and after it is resumed at
  time 200.\<close>

definition demo_paused :: world where
  "demo_paused = demo\<lparr>streams := (streams demo)(0 := (streams demo 0)\<lparr>lastCheckpoint := 100, paused := True\<rparr>),
      events := [StreamPaused 0]\<rparr>"

definition demo_resumed :: world where
  "demo_resumed = demo\<lparr>streams := (streams demo)(0 := (streams demo 0)\<lparr>lastCheckpoint := 200\<rparr>),
      events := [StreamPaused 0, StreamResumed 0]\<rparr>"

text \<open>The sample world after one year's yield (5000) has been accrued.\<close>

definition demo_accrued :: world where
  "demo_accrued = demo\<lparr>accumulatedYield := 5000, lastUpdate := 31536000,
      events := [YieldUpdated 5000 5000]\<rparr>"


text \<open>Two batches for the sample world: a valid one, and one whose second entry has the
  zero address.\<close>

definition demo_inputs :: "StreamInput list" where
  "demo_inputs = [\<lparr>inp_employee = 14, inp_ratePerSecond = 1, inp_taxBps = 500\<rparr>,
                  \<lparr>inp_employee = 15, inp_ratePerSecond = 2, inp_taxBps = 1000\<rparr>]"

definition demo_bad_inputs :: "StreamInput list" where
  "demo_bad_inputs = [\<lparr>inp_employee = 14, inp_ratePerSecond = 1, inp_taxBps = 500\<rparr>,
                      \<lparr>inp_employee = 0, inp_ratePerSecond = 2, inp_taxBps = 1000\<rparr>]"

text \<open>The sample world after stream 0 is cancelled at time 100.\<close>

definition demo_cancelled :: world where
  "demo_cancelled = demo\<lparr>streams := (streams demo)(0 := (streams demo 0)
      \<lparr>lastCheckpoint := 100, active := False\<rparr>), events := [StreamCancelled 0]\<rparr>"

section \<open>Word arithmetic\<close>

lemma unat_ucast_u128: "unat (ucast (x::u128) :: u256) = unat x"
proof -
  have "unat x < 2 ^ 128" using unsigned_less [of x, where 'a = nat] by simp
  then have "unat x < 2 ^ 256" by (rule less_le_trans) simp
  then show ?thesis by (simp add: unsigned_ucast_eq take_bit_nat_eq_self)
qed

lemma unat_ucast_u64: "unat (ucast (x::u64) :: u256) = unat x"
proof -
  have "unat x < 2 ^ 64" using unsigned_less [of x, where 'a = nat] by simp
  then have "unat x < 2 ^ 256" by (rule less_le_trans) simp
  then show ?thesis by (simp add: unsigned_ucast_eq take_bit_nat_eq_self)
qed

lemma unat_ucast_u32: "unat (ucast (x::u32) :: u256) = unat x"
proof -
  have "unat x < 2 ^ 32" using unsigned_less [of x, where 'a = nat] by simp
  then have "unat x < 2 ^ 256" by (rule less_le_trans) simp
  then show ?thesis by (simp add: unsigned_ucast_eq take_bit_nat_eq_self)
qed

lemma unat_ucast_down64: "unat (x::u256) < 2 ^ 64 \<Longrightarrow> unat (ucast x :: u64) = unat x"
  by (simp add: unsigned_ucast_eq take_bit_nat_eq_self)

lemma checked_add_unat: "checked_add a b = Inr c \<Longrightarrow> unat c = unat a + unat b"
  using unat_add_lem [of a b] by (auto simp: checked_add_def split: if_splits)

lemma checked_sub_unat: "checked_sub a b = Inr c \<Longrightarrow> unat b \<le> unat a \<and> unat c = unat a - unat b"
  by (auto simp: checked_sub_def unat_sub word_le_nat_alt split: if_splits)

lemma checked_mul_unat: "checked_mul a b = Inr c \<Longrightarrow> unat c = unat a * unat b"
  using unat_mult_lem [of a b] by (auto simp: checked_mul_def split: if_splits)

lemma checked_add_ok: "unat a + unat b < 2 ^ 256 \<Longrightarrow> checked_add a b = Inr (a + b) \<and> unat (a + b) = unat a + unat b"
  using unat_add_lem [of a b] by (simp add: checked_add_def)

lemma checked_sub_ok: "unat b \<le> unat a \<Longrightarrow> checked_sub a b = Inr (a - b) \<and> unat (a - b) = unat a - unat b"
  by (simp add: checked_sub_def unat_sub word_le_nat_alt)

lemma checked_mul_ok: "unat a * unat b < 2 ^ 256 \<Longrightarrow> checked_mul a b = Inr (a * b) \<and> unat (a * b) = unat a * unat b"
  using unat_mult_lem [of a b] by (simp add: checked_mul_def)

lemma pendingYield_exact:
  assumes lu: "unat (lastUpdate w) \<le> unat (timestamp env)"
      and fit: "unat (totalPrincipal w) * unat (yieldRateBps w)
                  * (unat (timestamp env) - unat (lastUpdate w)) < 2 ^ 256"
  shows "\<exists>p. pendingYield env w = Inr p \<and>
           unat p = unat (totalPrincipal w) * unat (yieldRateBps w)
                      * (unat (timestamp env) - unat (lastUpdate w)) div 315360000000"
proof (cases "totalPrincipal w = 0 \<or> yieldRateBps w = 0")
  case True
  then have "pendingYield env w = Inr 0" by (simp add: pendingYield_def)
  moreover from True have "unat (totalPrincipal w) * unat (yieldRateBps w) = 0"
    by (auto simp: unat_eq_0)
  then have "unat (totalPrincipal w) * unat (yieldRateBps w)
      * (unat (timestamp env) - unat (lastUpdate w)) div 315360000000 = 0"
    by auto
  ultimately show ?thesis by simp
next
  case False
  let ?el = "timestamp env - lastUpdate w"
  have sub: "checked_sub (timestamp env) (lastUpdate w) = Inr ?el"
    and el: "unat ?el = unat (timestamp env) - unat (lastUpdate w)"
    using checked_sub_ok [OF lu] by simp_all
  show ?thesis
  proof (cases "?el = 0")
    case True
    then have "unat (timestamp env) - unat (lastUpdate w) = 0" using el by simp
    moreover have "pendingYield env w = Inr 0"
      using False True sub by (simp add: pendingYield_def)
    ultimately show ?thesis by simp
  next
    case nz: False
    then have pos: "1 \<le> unat ?el" by (simp add: unat_eq_0 Suc_le_eq unat_gt_0)
    have le: "unat (totalPrincipal w) * unat (yieldRateBps w)
            \<le> unat (totalPrincipal w) * unat (yieldRateBps w) * unat ?el"
      using pos by (cases "unat ?el") simp_all
    have fit1: "unat (totalPrincipal w) * unat (yieldRateBps w) < 2 ^ 256"
      by (rule le_less_trans [OF le]) (use fit el in simp)
    let ?m1 = "totalPrincipal w * yieldRateBps w"
    have m1: "checked_mul (totalPrincipal w) (yieldRateBps w) = Inr ?m1"
      and um1: "unat ?m1 = unat (totalPrincipal w) * unat (yieldRateBps w)"
      using checked_mul_ok [OF fit1] by simp_all
    have fit2: "unat ?m1 * unat ?el < 2 ^ 256" using fit um1 el by simp
    have m2: "checked_mul ?m1 ?el = Inr (?m1 * ?el)"
      and um2: "unat (?m1 * ?el) = unat ?m1 * unat ?el"
      using checked_mul_ok [OF fit2] by simp_all
    have "pendingYield env w = Inr (?m1 * ?el div 315360000000)"
      using False nz sub m1 m2 by (simp add: pendingYield_def)
    moreover have "unat (?m1 * ?el div 315360000000)
        = unat (totalPrincipal w) * unat (yieldRateBps w)
            * (unat (timestamp env) - unat (lastUpdate w)) div 315360000000"
      by (simp add: unat_div um2 um1 el)
    ultimately show ?thesis by simp
  qed
qed


section \<open>The vault's balance view\<close>

lemma pendingYield_no_compounding:
  "pendingYield env (w\<lparr>accumulatedYield := y\<rparr>) = pendingYield env w"
  by (simp add: pendingYield_def split: sum.splits)

text \<open>
  C9. \<^verbatim>\<open>currentBalance()\<close> is a view: it takes the world and returns a value only. As
  long as no intermediate result leaves the 256-bit range it returns exactly
  \<open>totalPrincipal + accumulatedYield + pendingYield\<close>, where the pending yield is the
  floor of \<open>principal \<times> rateBps \<times> elapsed / (10000 \<times> secondsPerYear)\<close> (so zero when the
  principal, the rate or the elapsed time is zero); the pending yield does not depend on
  the yield already accumulated, so nothing compounds between accruals.
\<close>

theorem currentBalance_exact:
  assumes lu: "unat (lastUpdate w) \<le> unat (timestamp env)"
      and fit: "unat (totalPrincipal w) * unat (yieldRateBps w)
                  * (unat (timestamp env) - unat (lastUpdate w)) < 2 ^ 256"
      and total: "unat (totalPrincipal w) + unat (accumulatedYield w)
                  + spec_pendingYield (unat (totalPrincipal w)) (unat (yieldRateBps w))
                      (unat (timestamp env) - unat (lastUpdate w)) < 2 ^ 256"
  shows "(\<exists>v. currentBalance env w = Inr v \<and>
            unat v = unat (totalPrincipal w) + unat (accumulatedYield w)
              + spec_pendingYield (unat (totalPrincipal w)) (unat (yieldRateBps w))
                  (unat (timestamp env) - unat (lastUpdate w)))
       \<and> (\<exists>p. pendingYield env w = Inr p \<and>
            unat p = spec_pendingYield (unat (totalPrincipal w)) (unat (yieldRateBps w))
                  (unat (timestamp env) - unat (lastUpdate w)) \<and>
            pendingYield env (w\<lparr>accumulatedYield := y\<rparr>) = Inr p)"
proof -
  let ?f = "spec_pendingYield (unat (totalPrincipal w)) (unat (yieldRateBps w))
                  (unat (timestamp env) - unat (lastUpdate w))"
  obtain p where p: "pendingYield env w = Inr p" and up: "unat p = ?f"
    using pendingYield_exact [OF lu fit] by (auto simp: spec_pendingYield_def)
  have fit1: "unat (totalPrincipal w) + unat (accumulatedYield w) < 2 ^ 256"
    using total by simp
  let ?pa = "totalPrincipal w + accumulatedYield w"
  have pa: "checked_add (totalPrincipal w) (accumulatedYield w) = Inr ?pa"
    and upa: "unat ?pa = unat (totalPrincipal w) + unat (accumulatedYield w)"
    using checked_add_ok [OF fit1] by simp_all
  have fit2: "unat ?pa + unat p < 2 ^ 256" using total upa up by simp
  have "currentBalance env w = Inr (?pa + p)" and "unat (?pa + p) = unat ?pa + unat p"
    using checked_add_ok [OF fit2] p pa by (simp_all add: currentBalance_def)
  then show ?thesis using p up upa by (simp add: pendingYield_no_compounding)
qed

theorem currentBalance_exact_witness:
  "(\<exists>v. currentBalance (at_time 31536000 9) demo = Inr v \<and> unat v = 105000) \<and>
   (\<exists>p. pendingYield (at_time 31536000 9) demo = Inr p \<and> unat p = 5000 \<and>
        pendingYield (at_time 31536000 9) (demo\<lparr>accumulatedYield := 777\<rparr>) = Inr p)"
  using currentBalance_exact [where w = demo and env = "at_time 31536000 9" and y = 777]
  by (simp add: demo_def at_time_def spec_pendingYield_def)

section \<open>Accrual views and the lifecycle flags\<close>

lemma unat_u128_bound: "unat (x::u128) \<le> 2 ^ 128"
  using unsigned_less [of x, where 'a = nat] by simp

lemma accruedSalary_exact:
  assumes cp: "unat (lastCheckpoint (streams w sid)) \<le> unat (timestamp env)"
      and range: "unat (timestamp env) < 2 ^ 64"
  shows "\<exists>v. accruedSalary env sid w = Inr v \<and>
           unat v = unat (ratePerSecond (streams w sid))
                      * (unat (timestamp env) - unat (lastCheckpoint (streams w sid)))"
proof -
  let ?s = "streams w sid"
  let ?el = "timestamp env - ucast (lastCheckpoint ?s)"
  have "unat (ucast (lastCheckpoint ?s) :: u256) \<le> unat (timestamp env)"
    using cp by (simp add: unat_ucast_u64)
  from checked_sub_ok [OF this]
  have sub: "checked_sub (timestamp env) (ucast (lastCheckpoint ?s)) = Inr ?el"
    and el: "unat ?el = unat (timestamp env) - unat (lastCheckpoint ?s)"
    by (simp_all add: unat_ucast_u64)
  have "unat ?el \<le> 2 ^ 64" using el range by simp
  then have "unat (ratePerSecond ?s) * unat ?el \<le> 2 ^ 128 * 2 ^ 64"
    by (intro mult_le_mono unat_u128_bound)
  then have "unat (ucast (ratePerSecond ?s) :: u256) * unat ?el < 2 ^ 256"
    by (simp add: unat_ucast_u128)
  from checked_mul_ok [OF this]
  have "checked_mul (ucast (ratePerSecond ?s)) ?el = Inr (ucast (ratePerSecond ?s) * ?el)"
    and "unat (ucast (ratePerSecond ?s) * ?el) = unat (ratePerSecond ?s) * unat ?el"
    by (simp_all add: unat_ucast_u128)
  then show ?thesis using sub el by (simp add: accruedSalary_def Let_def)
qed

lemma withdraw_inactive:
  "\<not> active (streams w sid) \<Longrightarrow> withdraw env sid w = Inl (StreamInactive sid)"
  by (simp add: withdraw_def executeWithdraw_def)

lemma withdraw_paused:
  "active (streams w sid) \<Longrightarrow> paused (streams w sid) \<Longrightarrow>
     withdraw env sid w = Inl (AlreadyPaused sid)"
  by (simp add: withdraw_def executeWithdraw_def)

lemma executeWithdraw_flags:
  "executeWithdraw env sid w = Inr w' \<Longrightarrow> active (streams w sid) \<and> \<not> paused (streams w sid)"
  by (simp add: executeWithdraw_def Let_def split: if_splits)

lemma withdrawSigned_flags:
  "withdrawSigned r env sid n d fee sg w = Inr w' \<Longrightarrow>
     active (streams w sid) \<and> \<not> paused (streams w sid)"
  by (auto simp: withdrawSigned_def Let_def split: if_splits sum.splits
           dest!: executeWithdraw_flags)

lemma executeWithdraw_blocked:
  "\<not> active (streams w sid) \<or> paused (streams w sid) \<Longrightarrow>
     \<exists>e. executeWithdraw env sid w = Inl e"
  using executeWithdraw_flags [of env sid w] by (cases "executeWithdraw env sid w") auto

lemma withdrawSigned_blocked:
  "\<not> active (streams w sid) \<or> paused (streams w sid) \<Longrightarrow>
     \<exists>e. withdrawSigned r env sid n d fee sg w = Inl e"
  using withdrawSigned_flags [of r env sid n d fee sg w]
  by (cases "withdrawSigned r env sid n d fee sg w") auto

lemma accruedSalary_flags:
  "accruedSalary env sid (with_flags a p sid w) = accruedSalary env sid w"
  by (simp add: accruedSalary_def with_flags_def Let_def cong: sum.case_cong)

lemma netWithdrawable_flags:
  "netWithdrawable env sid (with_flags a p sid w) = netWithdrawable env sid w"
  by (simp add: netWithdrawable_def with_flags_def Let_def cong: sum.case_cong if_cong)

text \<open>
  C10. \<^verbatim>\<open>accruedSalary\<close> and \<^verbatim>\<open>netWithdrawable\<close> never read \<open>active\<close> or
  \<open>paused\<close>: their results are the same whatever the two flags are. For every stream,
  paused and cancelled ones included, \<^verbatim>\<open>accruedSalary\<close> returns
  \<open>ratePerSecond \<times> (now - lastCheckpoint)\<close> (block timestamps fit 64 bits, so nothing
  overflows), and it grows by \<open>ratePerSecond\<close> per second of elapsed time, although no
  withdrawal, direct or signed, succeeds while the stream is inactive or paused.
\<close>

theorem views_ignore_flags:
  assumes cp: "unat (lastCheckpoint (streams w sid)) \<le> unat (timestamp env)"
      and later: "unat (timestamp env) \<le> unat (timestamp env')"
      and range: "unat (timestamp env') < 2 ^ 64"
  shows "accruedSalary env sid (with_flags a p sid w) = accruedSalary env sid w
       \<and> netWithdrawable env sid (with_flags a p sid w) = netWithdrawable env sid w
       \<and> (\<exists>v v'. accruedSalary env sid w = Inr v
             \<and> unat v = unat (ratePerSecond (streams w sid))
                  * (unat (timestamp env) - unat (lastCheckpoint (streams w sid)))
             \<and> accruedSalary env' sid w = Inr v'
             \<and> unat v' = unat v + unat (ratePerSecond (streams w sid))
                  * (unat (timestamp env') - unat (timestamp env)))
       \<and> ((\<not> active (streams w sid) \<or> paused (streams w sid)) \<longrightarrow>
             (\<exists>e. withdraw envw sid w = Inl e) \<and>
             (\<exists>e. withdrawSigned r envw sid n d fee sg w = Inl e))"
proof -
  obtain v where v: "accruedSalary env sid w = Inr v"
    and uv: "unat v = unat (ratePerSecond (streams w sid))
                  * (unat (timestamp env) - unat (lastCheckpoint (streams w sid)))"
    using accruedSalary_exact [of w sid env] cp later range by auto
  obtain v' where v': "accruedSalary env' sid w = Inr v'"
    and uv': "unat v' = unat (ratePerSecond (streams w sid))
                  * (unat (timestamp env') - unat (lastCheckpoint (streams w sid)))"
    using accruedSalary_exact [of w sid env'] cp later range by auto
  have "unat (timestamp env') - unat (lastCheckpoint (streams w sid))
      = (unat (timestamp env) - unat (lastCheckpoint (streams w sid)))
        + (unat (timestamp env') - unat (timestamp env))"
    using cp later by simp
  then have grow: "unat v' = unat v + unat (ratePerSecond (streams w sid))
                  * (unat (timestamp env') - unat (timestamp env))"
    using uv uv' by (simp add: distrib_left)
  have blocked: "(\<not> active (streams w sid) \<or> paused (streams w sid)) \<longrightarrow>
             (\<exists>e. withdraw envw sid w = Inl e) \<and>
             (\<exists>e. withdrawSigned r envw sid n d fee sg w = Inl e)"
    using executeWithdraw_blocked [of w sid envw] withdrawSigned_blocked [of w sid r envw n d fee sg]
    by (simp add: withdraw_def)
  show ?thesis
    using v uv v' grow blocked by (simp add: accruedSalary_flags netWithdrawable_flags)
qed

theorem views_ignore_flags_witness:
  "(\<exists>v v'. accruedSalary (at_time 100 9) 0 (with_flags False False 0 demo) = Inr v \<and> unat v = 100
      \<and> accruedSalary (at_time 250 9) 0 (with_flags False False 0 demo) = Inr v' \<and> unat v' = 250)
   \<and> (\<exists>e. withdraw (at_time 250 14) 0 (with_flags False False 0 demo) = Inl e)
   \<and> (\<exists>e. withdrawSigned demo_recover (at_time 250 14) 0 0 300 0 [14] (with_flags False False 0 demo) = Inl e)"
  using views_ignore_flags [where w = "with_flags False False 0 demo" and sid = 0
      and env = "at_time 100 9" and env' = "at_time 250 9" and envw = "at_time 250 14"
      and r = demo_recover and n = 0 and d = 300 and fee = 0 and sg = "[14]"
      and a = True and p = True]
  by (auto simp: demo_def at_time_def with_flags_def new_stream_def)

section \<open>Pause and resume\<close>

lemma demo_pause: "pauseStream (at_time 100 2) 0 demo = Inr demo_paused"
  by (simp add: pauseStream_def demo_def demo_paused_def at_time_def new_stream_def emit_def)

lemma demo_resume: "resumeStream (at_time 200 2) 0 demo_paused = Inr demo_resumed"
  by (simp add: resumeStream_def demo_def demo_paused_def demo_resumed_def at_time_def new_stream_def emit_def)

text \<open>
  C3. A stream paused at \<open>t1\<close> and resumed at \<open>t2\<close> accrues nothing for the paused
  interval: while it is paused every withdrawal fails (the direct one with
  \<open>AlreadyPaused\<close>), and once resumed its accrued salary at any later time \<open>t\<close> is
  exactly \<open>ratePerSecond \<times> (t - t2)\<close>, whatever \<open>t1\<close> was. Block timestamps fit 64 bits.
\<close>

theorem pause_resume_accrual:
  assumes pause: "pauseStream env1 sid w0 = Inr w1"
      and resume: "resumeStream env2 sid w1 = Inr w2"
      and after: "unat (timestamp env2) \<le> unat (timestamp env)"
      and range: "unat (timestamp env) < 2 ^ 64"
  shows "withdraw envp sid w1 = Inl (AlreadyPaused sid)
       \<and> (\<exists>e. withdrawSigned r envp sid n d fee sg w1 = Inl e)
       \<and> (\<exists>v. accruedSalary env sid w2 = Inr v \<and>
             unat v = unat (ratePerSecond (streams w0 sid))
                        * (unat (timestamp env) - unat (timestamp env2)))"
proof -
  have s1: "streams w1 sid = (streams w0 sid)\<lparr>lastCheckpoint := ucast (timestamp env1), paused := True\<rparr>"
    and a0: "active (streams w0 sid)"
    using pause by (auto simp: pauseStream_def emit_def split: if_splits)
  have s2: "streams w2 sid = (streams w1 sid)\<lparr>lastCheckpoint := ucast (timestamp env2), paused := False\<rparr>"
    using resume by (auto simp: resumeStream_def emit_def split: if_splits)
  have r2: "unat (timestamp env2) < 2 ^ 64" using after range by simp
  have cp2: "unat (lastCheckpoint (streams w2 sid)) = unat (timestamp env2)"
    using s2 r2 by (simp add: unat_ucast_down64)
  have "withdraw envp sid w1 = Inl (AlreadyPaused sid)"
    using s1 a0 by (intro withdraw_paused) simp_all
  moreover have "\<exists>e. withdrawSigned r envp sid n d fee sg w1 = Inl e"
    using s1 by (intro withdrawSigned_blocked) simp
  moreover have "\<exists>v. accruedSalary env sid w2 = Inr v \<and>
             unat v = unat (ratePerSecond (streams w0 sid))
                        * (unat (timestamp env) - unat (timestamp env2))"
    using accruedSalary_exact [of w2 sid env] cp2 after range s1 s2 by simp
  ultimately show ?thesis by simp
qed


theorem pause_resume_accrual_witness:
  "pauseStream (at_time 100 2) 0 demo = Inr demo_paused
   \<and> resumeStream (at_time 200 2) 0 demo_paused = Inr demo_resumed
   \<and> withdraw (at_time 150 14) 0 demo_paused = Inl (AlreadyPaused 0)
   \<and> (\<exists>e. withdrawSigned demo_recover (at_time 150 14) 0 0 300 0 [14] demo_paused = Inl e)
   \<and> (\<exists>v. accruedSalary (at_time 250 9) 0 demo_resumed = Inr v \<and> unat v = 50)"
  using pause_resume_accrual [OF demo_pause demo_resume, where env = "at_time 250 9"
      and envp = "at_time 150 14" and r = demo_recover and n = 0 and d = 300 and fee = 0
      and sg = "[14]"] demo_pause demo_resume
  by (auto simp: demo_def at_time_def new_stream_def)

section \<open>What pausing does to salary accrued before the pause\<close>

text \<open>
  C2. The comment in \<^verbatim>\<open>pauseStream\<close> says the accrued amount is settled "so nothing is
  lost", but the function only moves the checkpoint. In the sample world stream 0 has
  accrued 100 at time 100; pausing then pays nothing and logs no transfer, and the view
  reports 0 right after. After resuming at 200, a withdrawal at 250 pays the 50 accrued
  since the resume (gross 50, tax 2, net 48): the 100 accrued before the pause are never
  paid.
\<close>

theorem pause_discards_accrued_salary:
  "accruedSalary (at_time 100 9) 0 demo = Inr 100
   \<and> pauseStream (at_time 100 2) 0 demo = Inr demo_paused
   \<and> balances demo_paused = balances demo
   \<and> events demo_paused = [StreamPaused 0]
   \<and> accruedSalary (at_time 100 9) 0 demo_paused = Inr 0
   \<and> resumeStream (at_time 200 2) 0 demo_paused = Inr demo_resumed
   \<and> (\<exists>w. withdraw (at_time 250 14) 0 demo_resumed = Inr w \<and>
          events w = [StreamPaused 0, StreamResumed 0, Transfer 4 1 50, VaultWithdraw 1 50,
                      Transfer 1 3 2, Transfer 1 14 48, Withdrawn 0 14 50 2 48] \<and>
          balances w 14 = 48 \<and> balances w 3 = 2)"
proof -
  have "accruedSalary (at_time 100 9) 0 demo = Inr 100"
    and "accruedSalary (at_time 100 9) 0 demo_paused = Inr 0"
    by (simp_all add: accruedSalary_def checked_sub_def checked_mul_def Let_def
          demo_paused_def demo_def at_time_def new_stream_def)
  moreover have "balances demo_paused = balances demo" and "events demo_paused = [StreamPaused 0]"
    by (simp_all add: demo_paused_def)
  moreover have "\<exists>w. withdraw (at_time 250 14) 0 demo_resumed = Inr w \<and>
          events w = [StreamPaused 0, StreamResumed 0, Transfer 4 1 50, VaultWithdraw 1 50,
                      Transfer 1 3 2, Transfer 1 14 48, Withdrawn 0 14 50 2 48] \<and>
          balances w 14 = 48 \<and> balances w 3 = 2"
    by (simp add: withdraw_def executeWithdraw_def yv_withdraw_def simulateYield_def
          pendingYield_def erc20_transfer_def erc20_move_def checked_add_def checked_sub_def
          checked_mul_def emit_def Let_def demo_resumed_def demo_def at_time_def
          new_stream_def)
  ultimately show ?thesis using demo_pause demo_resume by simp
qed

section \<open>Token transfers and the vault's withdrawal\<close>

lemma erc20_move_Inr:
  assumes "erc20_move s d a w = Inr w'"
  shows "s \<noteq> 0 \<and> d \<noteq> 0 \<and> unat a \<le> unat (balances w s) \<and>
     (\<exists>B. w' = w\<lparr>balances := B, events := events w @ [Transfer s d a]\<rparr> \<and>
          (s \<noteq> d \<longrightarrow> unat (B s) = unat (balances w s) - unat a \<and>
                     unat (B d) = unat (balances w d) + unat a))"
proof -
  from assms have s: "s \<noteq> 0" and d: "d \<noteq> 0" and le: "\<not> balances w s < a"
    by (auto simp: erc20_move_def split: if_splits)
  let ?b1 = "(balances w)(s := balances w s - a)"
  from assms s d le obtain nb where nb: "checked_add (?b1 d) a = Inr nb"
    and w': "w' = emit (Transfer s d a) (w\<lparr>balances := ?b1(d := nb)\<rparr>)"
    by (auto simp: erc20_move_def Let_def split: sum.splits)
  have ule: "unat a \<le> unat (balances w s)" using le by (simp add: word_less_nat_alt)
  have "s \<noteq> d \<longrightarrow> unat ((?b1(d := nb)) s) = unat (balances w s) - unat a \<and>
                     unat ((?b1(d := nb)) d) = unat (balances w d) + unat a"
    using checked_add_unat [OF nb] ule by (auto simp: unat_sub word_le_nat_alt)
  moreover have "w' = w\<lparr>balances := ?b1(d := nb), events := events w @ [Transfer s d a]\<rparr>"
    using w' by (simp add: emit_def)
  ultimately show ?thesis using s d ule by blast
qed

lemma erc20_move_ok:
  assumes "s \<noteq> 0" "d \<noteq> 0" "unat a \<le> unat (balances w s)"
      and "unat (balances w d) + unat a < 2 ^ 256"
  shows "\<exists>w'. erc20_move s d a w = Inr w'"
proof -
  have le: "\<not> balances w s < a" using assms(3) by (simp add: word_less_nat_alt)
  let ?b1 = "(balances w)(s := balances w s - a)"
  have "unat (?b1 d) + unat a < 2 ^ 256"
  proof (cases "d = s")
    case True
    then have "unat (?b1 d) = unat (balances w s) - unat a"
      using assms(3) by (simp add: unat_sub word_le_nat_alt)
    then show ?thesis using assms(3) unsigned_less [of "balances w s", where 'a = nat] by simp
  next
    case False
    then show ?thesis using assms(4) by simp
  qed
  then show ?thesis using assms(1,2) le by (simp add: erc20_move_def checked_add_def Let_def)
qed

lemma erc20_transfer_Inr:
  "erc20_transfer c d a w = Inr (ok, w') \<Longrightarrow> ok \<and> erc20_move c d a w = Inr w'"
  by (auto simp: erc20_transfer_def split: sum.splits)

lemma simulateYield_Inr:
  assumes "simulateYield env w = Inr w1"
  shows "\<exists>p. pendingYield env w = Inr p \<and>
           unat (accumulatedYield w1) = unat (accumulatedYield w) + unat p \<and>
           w1 = w\<lparr>accumulatedYield := accumulatedYield w + p, lastUpdate := timestamp env,
                  events := events w @ (if 0 < p then [YieldUpdated p (accumulatedYield w + p)] else [])\<rparr>"
proof -
  from assms obtain p where p: "pendingYield env w = Inr p"
    by (auto simp: simulateYield_def split: sum.splits)
  show ?thesis
  proof (cases "0 < p")
    case True
    with assms p obtain y where y: "checked_add (accumulatedYield w) p = Inr y"
      and w1: "w1 = (emit (YieldUpdated p y) (w\<lparr>accumulatedYield := y\<rparr>))\<lparr>lastUpdate := timestamp env\<rparr>"
      by (auto simp: simulateYield_def split: sum.splits)
    from y have yeq: "y = accumulatedYield w + p" by (simp add: checked_add_def split: if_splits)
    show ?thesis using p True w1 checked_add_unat [OF y] yeq by (auto simp: emit_def)
  next
    case False
    then have p0: "p = 0" using word_neq_0_conv by blast
    with assms p have "w1 = w\<lparr>lastUpdate := timestamp env\<rparr>"
      by (simp add: simulateYield_def)
    then show ?thesis using p p0 by auto
  qed
qed

lemma vault_deduct:
  assumes ule: "unat amount \<le> unat (totalPrincipal w1) + unat (accumulatedYield w1)"
  shows "\<exists>w2. (if amount \<le> accumulatedYield w1 then
                 (case checked_sub (accumulatedYield w1) amount of
                    Inl e \<Rightarrow> Inl e
                  | Inr y \<Rightarrow> Inr (w1\<lparr>accumulatedYield := y\<rparr>))
               else
                 (case checked_sub amount (accumulatedYield w1) of
                    Inl e \<Rightarrow> Inl e
                  | Inr remainder \<Rightarrow>
                     (case checked_sub (totalPrincipal w1) remainder of
                        Inl e \<Rightarrow> Inl e
                      | Inr p \<Rightarrow> Inr (w1\<lparr>accumulatedYield := 0, totalPrincipal := p\<rparr>)))) = Inr w2
      \<and> (\<exists>y p. w2 = w1\<lparr>accumulatedYield := y, totalPrincipal := p\<rparr>)
      \<and> unat (accumulatedYield w2)
               = unat (accumulatedYield w1) - min (unat amount) (unat (accumulatedYield w1))
      \<and> unat (totalPrincipal w2) = unat (totalPrincipal w1)
               - (unat amount - min (unat amount) (unat (accumulatedYield w1)))"
proof (cases "amount \<le> accumulatedYield w1")
  case True
  then have u: "unat amount \<le> unat (accumulatedYield w1)" by (simp add: word_le_nat_alt)
  have "\<exists>y p. w1\<lparr>accumulatedYield := accumulatedYield w1 - amount\<rparr>
          = w1\<lparr>accumulatedYield := y, totalPrincipal := p\<rparr>"
    by (rule exI [of _ "accumulatedYield w1 - amount"], rule exI [of _ "totalPrincipal w1"]) simp
  then show ?thesis using True checked_sub_ok [OF u] u by (simp add: min_def)
next
  case False
  then have u: "unat (accumulatedYield w1) \<le> unat amount"
    and nle: "\<not> unat amount \<le> unat (accumulatedYield w1)"
    by (simp_all add: word_le_nat_alt)
  from checked_sub_ok [OF u]
  have r: "checked_sub amount (accumulatedYield w1) = Inr (amount - accumulatedYield w1)"
    and ur: "unat (amount - accumulatedYield w1) = unat amount - unat (accumulatedYield w1)"
    by simp_all
  have "unat (amount - accumulatedYield w1) \<le> unat (totalPrincipal w1)"
    using ur ule by simp
  from checked_sub_ok [OF this]
  have p: "checked_sub (totalPrincipal w1) (amount - accumulatedYield w1)
             = Inr (totalPrincipal w1 - (amount - accumulatedYield w1))"
    and up: "unat (totalPrincipal w1 - (amount - accumulatedYield w1))
             = unat (totalPrincipal w1) - unat (amount - accumulatedYield w1)"
    by simp_all
  have "\<exists>y p. w1\<lparr>accumulatedYield := 0, totalPrincipal := totalPrincipal w1 - (amount - accumulatedYield w1)\<rparr>
          = w1\<lparr>accumulatedYield := y, totalPrincipal := p\<rparr>"
    by blast
  then show ?thesis using False nle r p up ur by (simp add: min_def)
qed

lemma yv_withdraw_eval:
  assumes owner: "sender env = yv_owner w" and amt: "amount \<noteq> 0" and dst: "dst \<noteq> 0"
      and accrue: "simulateYield env w = Inr w1"
      and fit: "unat (totalPrincipal w1) + unat (accumulatedYield w1) < 2 ^ 256"
      and ule: "unat amount \<le> unat (totalPrincipal w1) + unat (accumulatedYield w1)"
  shows "\<exists>w2 y p. w2 = w1\<lparr>accumulatedYield := y, totalPrincipal := p\<rparr>
      \<and> unat y = unat (accumulatedYield w1) - min (unat amount) (unat (accumulatedYield w1))
      \<and> unat p = unat (totalPrincipal w1)
               - (unat amount - min (unat amount) (unat (accumulatedYield w1)))
      \<and> yv_withdraw env amount dst w =
          (case erc20_move (yieldVault w) dst amount w2 of
             Inl e \<Rightarrow> Inl e
           | Inr w3 \<Rightarrow> Inr (emit (VaultWithdraw dst amount) w3))"
proof -
  have yv: "yieldVault w1 = yieldVault w"
    using simulateYield_Inr [OF accrue] by auto
  from vault_deduct [OF ule] obtain w2 y p
    where step: "(if amount \<le> accumulatedYield w1 then
                 (case checked_sub (accumulatedYield w1) amount of
                    Inl e \<Rightarrow> Inl e
                  | Inr y \<Rightarrow> Inr (w1\<lparr>accumulatedYield := y\<rparr>))
               else
                 (case checked_sub amount (accumulatedYield w1) of
                    Inl e \<Rightarrow> Inl e
                  | Inr remainder \<Rightarrow>
                     (case checked_sub (totalPrincipal w1) remainder of
                        Inl e \<Rightarrow> Inl e
                      | Inr p \<Rightarrow> Inr (w1\<lparr>accumulatedYield := 0, totalPrincipal := p\<rparr>)))) = Inr w2"
      and w2: "w2 = w1\<lparr>accumulatedYield := y, totalPrincipal := p\<rparr>"
      and u: "unat (accumulatedYield w2)
               = unat (accumulatedYield w1) - min (unat amount) (unat (accumulatedYield w1))"
             "unat (totalPrincipal w2) = unat (totalPrincipal w1)
               - (unat amount - min (unat amount) (unat (accumulatedYield w1)))"
    by blast
  have nl: "\<not> totalPrincipal w1 + accumulatedYield w1 < amount"
    using checked_add_ok [OF fit] ule by (simp add: word_less_nat_alt)
  have "yv_withdraw env amount dst w =
          (case erc20_move (yieldVault w) dst amount w2 of
             Inl e \<Rightarrow> Inl e
           | Inr w3 \<Rightarrow> Inr (emit (VaultWithdraw dst amount) w3))"
    using owner amt dst accrue checked_add_ok [OF fit] nl step yv w2
    by (simp add: yv_withdraw_def erc20_transfer_def split: sum.splits)
  then show ?thesis using w2 u by auto
qed

lemma yv_withdraw_Inr:
  assumes "yv_withdraw env amount dst w = Inr w'"
  shows "sender env = yv_owner w \<and> amount \<noteq> 0 \<and> dst \<noteq> 0 \<and>
    (\<exists>w1 y p w3. simulateYield env w = Inr w1 \<and>
       unat amount \<le> unat (totalPrincipal w1) + unat (accumulatedYield w1) \<and>
       unat y = unat (accumulatedYield w1) - min (unat amount) (unat (accumulatedYield w1)) \<and>
       unat p = unat (totalPrincipal w1)
           - (unat amount - min (unat amount) (unat (accumulatedYield w1))) \<and>
       erc20_move (yieldVault w) dst amount (w1\<lparr>accumulatedYield := y, totalPrincipal := p\<rparr>) = Inr w3 \<and>
       w' = emit (VaultWithdraw dst amount) w3)"
proof -
  from assms have pre: "sender env = yv_owner w" "amount \<noteq> 0" "dst \<noteq> 0"
    by (auto simp: yv_withdraw_def split: if_splits)
  with assms obtain w1 where w1: "simulateYield env w = Inr w1"
    by (auto simp: yv_withdraw_def split: sum.splits)
  with assms pre obtain available
    where av: "checked_add (totalPrincipal w1) (accumulatedYield w1) = Inr available"
    by (auto simp: yv_withdraw_def split: sum.splits)
  with assms pre w1 have le: "\<not> available < amount"
    by (auto simp: yv_withdraw_def split: if_splits)
  have fit: "unat (totalPrincipal w1) + unat (accumulatedYield w1) < 2 ^ 256"
    using av by (simp add: checked_add_def split: if_splits)
  have ule: "unat amount \<le> unat (totalPrincipal w1) + unat (accumulatedYield w1)"
    using le checked_add_unat [OF av] by (simp add: word_less_nat_alt)
  from yv_withdraw_eval [OF pre w1 fit ule] obtain y p
    where y: "unat y = unat (accumulatedYield w1) - min (unat amount) (unat (accumulatedYield w1))"
      and p: "unat p = unat (totalPrincipal w1)
               - (unat amount - min (unat amount) (unat (accumulatedYield w1)))"
      and ev: "yv_withdraw env amount dst w =
          (case erc20_move (yieldVault w) dst amount (w1\<lparr>accumulatedYield := y, totalPrincipal := p\<rparr>) of
             Inl e \<Rightarrow> Inl e
           | Inr w3 \<Rightarrow> Inr (emit (VaultWithdraw dst amount) w3))"
    by blast
  from ev assms obtain w3
    where "erc20_move (yieldVault w) dst amount (w1\<lparr>accumulatedYield := y, totalPrincipal := p\<rparr>) = Inr w3"
      and "w' = emit (VaultWithdraw dst amount) w3"
    by (auto split: sum.splits)
  then show ?thesis using pre w1 ule y p by blast
qed

lemma yv_withdraw_frame:
  assumes "yv_withdraw env amount dst w = Inr w'"
  shows "same_manager w w' \<and>
     (\<exists>pre. events w' = events w @ pre @ [Transfer (yieldVault w) dst amount, VaultWithdraw dst amount]
        \<and> (pre = [] \<or> (\<exists>p y. pre = [YieldUpdated p y])))"
proof -
  from yv_withdraw_Inr [OF assms] obtain w1 y p w3
    where w1: "simulateYield env w = Inr w1"
      and w3: "erc20_move (yieldVault w) dst amount (w1\<lparr>accumulatedYield := y, totalPrincipal := p\<rparr>) = Inr w3"
      and w': "w' = emit (VaultWithdraw dst amount) w3"
    by blast
  from simulateYield_Inr [OF w1] obtain q
    where "w1 = w\<lparr>accumulatedYield := accumulatedYield w + q, lastUpdate := timestamp env,
                  events := events w @ (if 0 < q then [YieldUpdated q (accumulatedYield w + q)] else [])\<rparr>"
    by blast
  moreover from erc20_move_Inr [OF w3] obtain B
    where "w3 = w1\<lparr>accumulatedYield := y, totalPrincipal := p, balances := B,
             events := events w1 @ [Transfer (yieldVault w) dst amount]\<rparr>"
    by auto
  ultimately show ?thesis using w' by (auto simp: same_manager_def emit_def)
qed


lemma demo_accrue: "simulateYield (at_time 31536000 1) demo = Inr demo_accrued"
  by (simp add: simulateYield_def pendingYield_def checked_add_def checked_sub_def
        checked_mul_def emit_def demo_accrued_def demo_def at_time_def)

text \<open>
  C8, as stated, fails where the simulated yield is not backed by tokens. The sample
  vault holds 100000 tokens; after a year at 5 percent the accrual makes
  \<open>totalPrincipal + accumulatedYield\<close> 105000. A withdrawal of 105000 is within that
  balance, yet it neither fails with \<open>InsufficientBalance\<close> nor transfers the amount:
  the token transfer reverts.
\<close>

theorem vault_withdraw_unbacked_counterexample:
  "simulateYield (at_time 31536000 1) demo = Inr demo_accrued
   \<and> unat (105000 :: u256)
        \<le> unat (totalPrincipal demo_accrued) + unat (accumulatedYield demo_accrued)
   \<and> unat (balances demo (yieldVault demo)) = 100000
   \<and> yv_withdraw (at_time 31536000 1) 105000 1 demo
        = Inl (Revert ''ERC20: transfer amount exceeds balance'')
   \<and> yv_withdraw (at_time 31536000 1) 105000 1 demo
        \<noteq> Inl (InsufficientBalance 105000 105000)"
  by (simp add: yv_withdraw_def erc20_transfer_def erc20_move_def simulateYield_def
        pendingYield_def checked_add_def checked_sub_def checked_mul_def emit_def
        demo_accrued_def demo_def at_time_def)

text \<open>
  C8, amended. \<^verbatim>\<open>YieldVault.withdraw(amount, to)\<close>, called by the vault's owner with a
  non-zero amount and recipient (what the function requires of its caller and parameters
  before it does anything else), first accrues the pending yield (\<open>w1\<close> is the world
  after the accrual, whose principal plus yield fits 256 bits). It then fails with
  \<open>InsufficientBalance\<close> whenever the amount exceeds
  \<open>totalPrincipal + accumulatedYield\<close>; a failure returns no state. Otherwise the
  outcome depends on the tokens the vault holds: when they are fewer than the amount the
  call fails with the token's revert \<^verbatim>\<open>ERC20: transfer amount exceeds balance\<close>; when
  they cover the amount (and the recipient's token balance has room for it) the call
  succeeds. Every successful call is within both \<open>totalPrincipal + accumulatedYield\<close>
  and the vault's tokens, takes the amount from the accumulated yield first and only the
  remainder from the principal, and transfers exactly the amount to the recipient.
\<close>

theorem vault_withdraw_yield_first:
  assumes owner: "sender env = yv_owner w" and amt: "amount \<noteq> 0" and dst: "dst \<noteq> 0"
      and accrue: "simulateYield env w = Inr w1"
      and fit: "unat (totalPrincipal w1) + unat (accumulatedYield w1) < 2 ^ 256"
  shows "(\<exists>p. pendingYield env w = Inr p
            \<and> unat (accumulatedYield w1) = unat (accumulatedYield w) + unat p
            \<and> totalPrincipal w1 = totalPrincipal w)
       \<and> (unat (totalPrincipal w1) + unat (accumulatedYield w1) < unat amount \<longrightarrow>
            yv_withdraw env amount dst w
              = Inl (InsufficientBalance amount (totalPrincipal w1 + accumulatedYield w1)))
       \<and> (unat amount \<le> unat (totalPrincipal w1) + unat (accumulatedYield w1) \<longrightarrow>
            yieldVault w \<noteq> 0 \<longrightarrow> unat (balances w (yieldVault w)) < unat amount \<longrightarrow>
            yv_withdraw env amount dst w
              = Inl (Revert ''ERC20: transfer amount exceeds balance''))
       \<and> (unat amount \<le> unat (totalPrincipal w1) + unat (accumulatedYield w1) \<longrightarrow>
            yieldVault w \<noteq> 0 \<longrightarrow> unat amount \<le> unat (balances w (yieldVault w)) \<longrightarrow>
            unat (balances w dst) + unat amount < 2 ^ 256 \<longrightarrow>
            (\<exists>w'. yv_withdraw env amount dst w = Inr w'))
       \<and> (\<forall>w'. yv_withdraw env amount dst w = Inr w' \<longrightarrow>
            unat amount \<le> unat (totalPrincipal w1) + unat (accumulatedYield w1)
          \<and> unat amount \<le> unat (balances w (yieldVault w))
          \<and> unat (accumulatedYield w')
              = unat (accumulatedYield w1) - min (unat amount) (unat (accumulatedYield w1))
          \<and> unat (totalPrincipal w')
              = unat (totalPrincipal w1)
                  - (unat amount - min (unat amount) (unat (accumulatedYield w1)))
          \<and> events w' = events w1 @ [Transfer (yieldVault w) dst amount, VaultWithdraw dst amount]
          \<and> (dst \<noteq> yieldVault w \<longrightarrow>
                unat (balances w' dst) = unat (balances w dst) + unat amount
              \<and> unat (balances w' (yieldVault w))
                  = unat (balances w (yieldVault w)) - unat amount))"
proof -
  from simulateYield_Inr [OF accrue] obtain q
    where q: "pendingYield env w = Inr q"
      and uq: "unat (accumulatedYield w1) = unat (accumulatedYield w) + unat q"
      and w1: "w1 = w\<lparr>accumulatedYield := accumulatedYield w + q, lastUpdate := timestamp env,
                  events := events w @ (if 0 < q then [YieldUpdated q (accumulatedYield w + q)] else [])\<rparr>"
    by blast
  have frame1: "totalPrincipal w1 = totalPrincipal w" "balances w1 = balances w"
    by (simp_all add: w1)
  have first: "\<exists>p. pendingYield env w = Inr p
            \<and> unat (accumulatedYield w1) = unat (accumulatedYield w) + unat p
            \<and> totalPrincipal w1 = totalPrincipal w"
    using q uq frame1 by blast
  have short: "yv_withdraw env amount dst w
              = Inl (InsufficientBalance amount (totalPrincipal w1 + accumulatedYield w1))"
    if "unat (totalPrincipal w1) + unat (accumulatedYield w1) < unat amount"
    using that owner amt dst accrue checked_add_ok [OF fit]
    by (simp add: yv_withdraw_def word_less_nat_alt)
  have unbacked: "yv_withdraw env amount dst w
              = Inl (Revert ''ERC20: transfer amount exceeds balance'')"
    if ule: "unat amount \<le> unat (totalPrincipal w1) + unat (accumulatedYield w1)"
      and nz: "yieldVault w \<noteq> 0" and bal: "unat (balances w (yieldVault w)) < unat amount"
  proof -
    from yv_withdraw_eval [OF owner amt dst accrue fit ule] obtain y p
      where ev: "yv_withdraw env amount dst w =
          (case erc20_move (yieldVault w) dst amount (w1\<lparr>accumulatedYield := y, totalPrincipal := p\<rparr>) of
             Inl e \<Rightarrow> Inl e
           | Inr w3 \<Rightarrow> Inr (emit (VaultWithdraw dst amount) w3))"
      by blast
    have "erc20_move (yieldVault w) dst amount (w1\<lparr>accumulatedYield := y, totalPrincipal := p\<rparr>)
            = Inl (Revert ''ERC20: transfer amount exceeds balance'')"
      using nz dst bal frame1 by (simp add: erc20_move_def word_less_nat_alt)
    then show ?thesis using ev by simp
  qed
  have enough: "\<exists>w'. yv_withdraw env amount dst w = Inr w'"
    if ule: "unat amount \<le> unat (totalPrincipal w1) + unat (accumulatedYield w1)"
      and nz: "yieldVault w \<noteq> 0" and bal: "unat amount \<le> unat (balances w (yieldVault w))"
      and room: "unat (balances w dst) + unat amount < 2 ^ 256"
  proof -
    from yv_withdraw_eval [OF owner amt dst accrue fit ule] obtain y p
      where ev: "yv_withdraw env amount dst w =
          (case erc20_move (yieldVault w) dst amount (w1\<lparr>accumulatedYield := y, totalPrincipal := p\<rparr>) of
             Inl e \<Rightarrow> Inl e
           | Inr w3 \<Rightarrow> Inr (emit (VaultWithdraw dst amount) w3))"
      by blast
    have "\<exists>w3. erc20_move (yieldVault w) dst amount (w1\<lparr>accumulatedYield := y, totalPrincipal := p\<rparr>) = Inr w3"
      using nz dst bal room frame1 by (intro erc20_move_ok) simp_all
    then show ?thesis using ev by auto
  qed
  have fin: "unat amount \<le> unat (totalPrincipal w1) + unat (accumulatedYield w1)
          \<and> unat amount \<le> unat (balances w (yieldVault w))
          \<and> unat (accumulatedYield w')
              = unat (accumulatedYield w1) - min (unat amount) (unat (accumulatedYield w1))
          \<and> unat (totalPrincipal w')
              = unat (totalPrincipal w1)
                  - (unat amount - min (unat amount) (unat (accumulatedYield w1)))
          \<and> events w' = events w1 @ [Transfer (yieldVault w) dst amount, VaultWithdraw dst amount]
          \<and> (dst \<noteq> yieldVault w \<longrightarrow>
                unat (balances w' dst) = unat (balances w dst) + unat amount
              \<and> unat (balances w' (yieldVault w))
                  = unat (balances w (yieldVault w)) - unat amount)"
    if ok: "yv_withdraw env amount dst w = Inr w'" for w'
  proof -
    from yv_withdraw_Inr [OF ok] accrue obtain y p w3
      where ule: "unat amount \<le> unat (totalPrincipal w1) + unat (accumulatedYield w1)"
        and y: "unat y = unat (accumulatedYield w1) - min (unat amount) (unat (accumulatedYield w1))"
        and p: "unat p = unat (totalPrincipal w1)
               - (unat amount - min (unat amount) (unat (accumulatedYield w1)))"
        and mv: "erc20_move (yieldVault w) dst amount (w1\<lparr>accumulatedYield := y, totalPrincipal := p\<rparr>) = Inr w3"
        and w': "w' = emit (VaultWithdraw dst amount) w3"
      by auto
    from erc20_move_Inr [OF mv] obtain B
      where w3: "w3 = w1\<lparr>accumulatedYield := y, totalPrincipal := p, balances := B,
             events := events w1 @ [Transfer (yieldVault w) dst amount]\<rparr>"
        and B: "yieldVault w \<noteq> dst \<longrightarrow>
                  unat (B (yieldVault w)) = unat (balances w (yieldVault w)) - unat amount \<and>
                  unat (B dst) = unat (balances w dst) + unat amount"
        and cover: "unat amount \<le> unat (balances w (yieldVault w))"
      using frame1 by auto
    show ?thesis using ule cover y p w' w3 B by (auto simp: emit_def)
  qed
  show ?thesis using first short unbacked enough fin by blast
qed

theorem vault_withdraw_yield_first_witness:
  "simulateYield (at_time 31536000 1) demo = Inr demo_accrued
   \<and> yv_withdraw (at_time 31536000 1) 200000 1 demo = Inl (InsufficientBalance 200000 105000)
   \<and> yv_withdraw (at_time 31536000 1) 104000 1 demo
        = Inl (Revert ''ERC20: transfer amount exceeds balance'')
   \<and> (\<exists>w'. yv_withdraw (at_time 31536000 1) 7000 1 demo = Inr w'
          \<and> unat (accumulatedYield w') = 0 \<and> unat (totalPrincipal w') = 98000
          \<and> events w' = [YieldUpdated 5000 5000, Transfer 4 1 7000, VaultWithdraw 1 7000]
          \<and> unat (balances w' 1) = 7050 \<and> unat (balances w' 4) = 93000)"
proof -
  have pre: "sender (at_time 31536000 1) = yv_owner demo" "(200000::u256) \<noteq> 0" "(7000::u256) \<noteq> 0"
    "(1::address) \<noteq> 0"
    "unat (totalPrincipal demo_accrued) + unat (accumulatedYield demo_accrued) < 2 ^ 256"
    "(104000::u256) \<noteq> 0"
    by (simp_all add: at_time_def demo_def demo_accrued_def)
  note big = vault_withdraw_yield_first [OF pre(1) pre(2) pre(4) demo_accrue pre(5)]
  note small = vault_withdraw_yield_first [OF pre(1) pre(3) pre(4) demo_accrue pre(5)]
  note mid = vault_withdraw_yield_first [OF pre(1) pre(6) pre(4) demo_accrue pre(5)]
  have "yv_withdraw (at_time 31536000 1) 200000 1 demo = Inl (InsufficientBalance 200000 105000)"
    using big by (simp add: demo_def demo_accrued_def)
  moreover have "yv_withdraw (at_time 31536000 1) 104000 1 demo
        = Inl (Revert ''ERC20: transfer amount exceeds balance'')"
    using mid by (simp add: demo_def demo_accrued_def)
  moreover obtain w' where w': "yv_withdraw (at_time 31536000 1) 7000 1 demo = Inr w'"
    using small by (auto simp: demo_def demo_accrued_def)
  moreover have "unat (accumulatedYield w') = 0 \<and> unat (totalPrincipal w') = 98000
          \<and> events w' = [YieldUpdated 5000 5000, Transfer 4 1 7000, VaultWithdraw 1 7000]
          \<and> unat (balances w' 1) = 7050 \<and> unat (balances w' 4) = 93000"
    using small w' by (simp add: demo_def demo_accrued_def)
  ultimately show ?thesis using demo_accrue by blast
qed

section \<open>Withdrawals\<close>

lemma executeWithdraw_raw:
  assumes "executeWithdraw env sid w = Inr w'"
  shows "\<exists>elapsed accrued gross taxed net totalPayout wv wt w4.
      active (streams w sid) \<and> \<not> paused (streams w sid)
    \<and> checked_sub (timestamp env) (ucast (lastCheckpoint (streams w sid))) = Inr elapsed
    \<and> checked_mul (ucast (ratePerSecond (streams w sid))) elapsed = Inr accrued
    \<and> checked_add accrued (if claimable env (streams w sid) then bonusAmount (streams w sid) else 0) = Inr gross
    \<and> gross \<noteq> 0
    \<and> checked_mul accrued (ucast (taxBps (streams w sid))) = Inr taxed
    \<and> checked_sub gross (taxed div 10000) = Inr net
    \<and> checked_add net (taxed div 10000) = Inr totalPayout
    \<and> yv_withdraw (env\<lparr>sender := sm_self w\<rparr>) totalPayout (sm_self w)
          (w\<lparr>streams := (streams w)(sid := settled env (streams w sid))\<rparr>) = Inr wv
    \<and> (if 0 < taxed div 10000
        then erc20_transfer (sm_self wv) (taxVault wv) (taxed div 10000) wv = Inr (True, wt)
        else wt = wv)
    \<and> erc20_transfer (sm_self wt) (employee (streams wt sid)) net wt = Inr (True, w4)
    \<and> w' = emit (Withdrawn sid (employee (streams w4 sid)) gross (taxed div 10000) net) w4"
  using assms
  by (auto simp: executeWithdraw_def Let_def claimable_def settled_def
           split: if_splits sum.splits prod.splits)


lemma claimable_nat:
  "claimable env s \<longleftrightarrow>
     0 < unat (bonusAmount s) \<and> unat (bonusReleaseTime s) \<le> unat (timestamp env)
       \<and> \<not> bonusClaimed s"
  by (simp add: claimable_def word_less_nat_alt word_le_nat_alt unat_ucast_u64)

lemma claimable_bonus_unat:
  "unat (if claimable env s then bonusAmount s else 0) = spec_claimableBonus env s"
  by (simp add: claimable_nat spec_claimableBonus_def)

lemma settled_fields:
  "employee (settled env s) = employee s" "ratePerSecond (settled env s) = ratePerSecond s"
  "taxBps (settled env s) = taxBps s" "active (settled env s) = active s"
  "paused (settled env s) = paused s" "lastCheckpoint (settled env s) = ucast (timestamp env)"
  "bonusAmount (settled env s) = bonusAmount s"
  "bonusReleaseTime (settled env s) = bonusReleaseTime s"
  "bonusClaimed (settled env s) = (claimable env s \<or> bonusClaimed s)"
  by (simp_all add: settled_def)

lemma executeWithdraw_Inr:
  assumes ok: "executeWithdraw env sid w = Inr w'"
  shows "\<exists>gross tax net wv wt w4.
      active (streams w sid) \<and> \<not> paused (streams w sid)
    \<and> unat (lastCheckpoint (streams w sid)) \<le> unat (timestamp env)
    \<and> unat gross = spec_accrued env (streams w sid) + spec_claimableBonus env (streams w sid)
    \<and> gross \<noteq> 0
    \<and> unat tax = spec_tax (spec_accrued env (streams w sid)) (unat (taxBps (streams w sid)))
    \<and> unat tax \<le> unat gross
    \<and> unat net = unat gross - unat tax
    \<and> yv_withdraw (env\<lparr>sender := sm_self w\<rparr>) gross (sm_self w)
          (w\<lparr>streams := (streams w)(sid := settled env (streams w sid))\<rparr>) = Inr wv
    \<and> (if 0 < tax then erc20_move (sm_self w) (taxVault w) tax wv = Inr wt else wt = wv)
    \<and> erc20_move (sm_self w) (employee (streams w sid)) net wt = Inr w4
    \<and> w' = emit (Withdrawn sid (employee (streams w sid)) gross tax net) w4"
proof -
  let ?s = "streams w sid"
  let ?w1 = "w\<lparr>streams := (streams w)(sid := settled env ?s)\<rparr>"
  from executeWithdraw_raw [OF ok] obtain elapsed accrued gross taxed net totalPayout wv wt w4
    where fl: "active ?s" "\<not> paused ?s"
      and el: "checked_sub (timestamp env) (ucast (lastCheckpoint ?s)) = Inr elapsed"
      and ac: "checked_mul (ucast (ratePerSecond ?s)) elapsed = Inr accrued"
      and gr: "checked_add accrued (if claimable env ?s then bonusAmount ?s else 0) = Inr gross"
      and nz: "gross \<noteq> 0"
      and tx: "checked_mul accrued (ucast (taxBps ?s)) = Inr taxed"
      and nt: "checked_sub gross (taxed div 10000) = Inr net"
      and tp: "checked_add net (taxed div 10000) = Inr totalPayout"
      and wv: "yv_withdraw (env\<lparr>sender := sm_self w\<rparr>) totalPayout (sm_self w) ?w1 = Inr wv"
      and wt: "if 0 < taxed div 10000
               then erc20_transfer (sm_self wv) (taxVault wv) (taxed div 10000) wv = Inr (True, wt)
               else wt = wv"
      and w4: "erc20_transfer (sm_self wt) (employee (streams wt sid)) net wt = Inr (True, w4)"
      and w': "w' = emit (Withdrawn sid (employee (streams w4 sid)) gross (taxed div 10000) net) w4"
    by blast
  let ?tax = "taxed div 10000"
  have uel: "unat (lastCheckpoint ?s) \<le> unat (timestamp env)"
    "unat elapsed = unat (timestamp env) - unat (lastCheckpoint ?s)"
    using checked_sub_unat [OF el] by (simp_all add: unat_ucast_u64)
  have uac: "unat accrued = spec_accrued env ?s"
    using checked_mul_unat [OF ac] uel by (simp add: spec_accrued_def unat_ucast_u128)
  have ugr: "unat gross = spec_accrued env ?s + spec_claimableBonus env ?s"
    using checked_add_unat [OF gr] uac by (simp only: claimable_bonus_unat)
  have utx: "unat ?tax = spec_tax (spec_accrued env ?s) (unat (taxBps ?s))"
    using checked_mul_unat [OF tx] uac by (simp add: spec_tax_def unat_div unat_ucast_u32)
  have unt: "unat ?tax \<le> unat gross" "unat net = unat gross - unat ?tax"
    using checked_sub_unat [OF nt] by simp_all
  have "net = gross - ?tax" using nt by (simp add: checked_sub_def split: if_splits)
  moreover have "totalPayout = net + ?tax" using tp by (simp add: checked_add_def split: if_splits)
  ultimately have tpg: "totalPayout = gross" by simp
  have sm1: "same_manager ?w1 wv" using yv_withdraw_frame [OF wv] by blast
  then have f1: "sm_self wv = sm_self w" "taxVault wv = taxVault w"
    "streams wv = (streams w)(sid := settled env ?s)"
    by (simp_all add: same_manager_def)
  have wt': "if 0 < ?tax then erc20_move (sm_self w) (taxVault w) ?tax wv = Inr wt else wt = wv"
    using wt f1 by (auto dest: erc20_transfer_Inr split: if_splits)
  have f2: "sm_self wt = sm_self w" "streams wt = (streams w)(sid := settled env ?s)"
    using wt' f1 by (auto dest!: erc20_move_Inr split: if_splits)
  have w4': "erc20_move (sm_self w) (employee ?s) net wt = Inr w4"
    using erc20_transfer_Inr [OF w4] f2 by (simp add: settled_fields)
  have f3: "streams w4 = (streams w)(sid := settled env ?s)"
    using erc20_move_Inr [OF w4'] f2 by auto
  have "w' = emit (Withdrawn sid (employee ?s) gross ?tax net) w4"
    using w' f3 by (simp add: settled_fields)
  then show ?thesis using fl uel ugr nz utx unt wv tpg wt' w4' by blast
qed


lemma executeWithdraw_frame:
  assumes ok: "executeWithdraw env sid w = Inr w'"
  shows "sm_self w' = sm_self w \<and> sm_owner w' = sm_owner w \<and> taxVault w' = taxVault w
       \<and> yieldVault w' = yieldVault w \<and> nextStreamId w' = nextStreamId w
       \<and> sponsorshipPool w' = sponsorshipPool w \<and> nonces w' = nonces w
       \<and> streams w' = (streams w)(sid := settled env (streams w sid))"
proof -
  from executeWithdraw_Inr [OF ok] obtain gross tax net wv wt w4
    where wv: "yv_withdraw (env\<lparr>sender := sm_self w\<rparr>) gross (sm_self w)
          (w\<lparr>streams := (streams w)(sid := settled env (streams w sid))\<rparr>) = Inr wv"
      and wt: "if 0 < tax then erc20_move (sm_self w) (taxVault w) tax wv = Inr wt else wt = wv"
      and w4: "erc20_move (sm_self w) (employee (streams w sid)) net wt = Inr w4"
      and w': "w' = emit (Withdrawn sid (employee (streams w sid)) gross tax net) w4"
    by blast
  have "same_manager (w\<lparr>streams := (streams w)(sid := settled env (streams w sid))\<rparr>) wv"
    using yv_withdraw_frame [OF wv] by blast
  moreover have "same_manager wv wt"
    using wt by (auto simp: same_manager_def dest!: erc20_move_Inr split: if_splits)
  moreover have "same_manager wt w4"
    using erc20_move_Inr [OF w4] by (auto simp: same_manager_def)
  ultimately show ?thesis using w' by (simp add: same_manager_def emit_def)
qed


lemma withdrawSigned_Inr:
  assumes ok: "withdrawSigned r env sid n d fee sg w = Inr w'"
  shows "\<exists>w2 w3. unat (timestamp env) \<le> unat d
     \<and> n = nonces w (employee (streams w sid))
     \<and> r sid n d sg = Inr (employee (streams w sid))
     \<and> unat n + 1 < 2 ^ 256
     \<and> executeWithdraw env sid
          (w\<lparr>nonces := (nonces w)(employee (streams w sid) := n + 1)\<rparr>) = Inr w2
     \<and> (if 0 < fee
         then unat fee \<le> unat (sponsorshipPool w)
            \<and> erc20_move (sm_self w) (sender env) fee
                 (w2\<lparr>sponsorshipPool := sponsorshipPool w - fee\<rparr>) = Inr w3
         else w3 = w2)
     \<and> w' = emit (WithdrawnSigned sid (employee (streams w sid)) (sender env) fee) w3"
proof -
  let ?emp = "employee (streams w sid)"
  from ok have dl: "\<not> d < timestamp env" and nn: "n = nonces w ?emp"
    by (auto simp: withdrawSigned_def Let_def split: if_splits)
  with ok have rc: "r sid n d sg = Inr ?emp"
    by (auto simp: withdrawSigned_def Let_def split: if_splits sum.splits)
  with ok dl nn obtain n1 where n1: "checked_add n 1 = Inr n1"
    by (auto simp: withdrawSigned_def Let_def split: if_splits sum.splits)
  then have n1eq: "n1 = n + 1" and fitn: "unat n + 1 < 2 ^ 256"
    by (auto simp: checked_add_def split: if_splits)
  from ok dl nn rc n1 obtain w2
    where w2: "executeWithdraw env sid (w\<lparr>nonces := (nonces w)(?emp := n + 1)\<rparr>) = Inr w2"
    by (auto simp: withdrawSigned_def Let_def n1eq split: if_splits sum.splits)
  from executeWithdraw_frame [OF w2]
  have fr: "sm_self w2 = sm_self w" "sponsorshipPool w2 = sponsorshipPool w" by simp_all
  from ok dl nn rc n1 w2 n1eq obtain w3
    where st: "(if 0 < fee then
                   (if sponsorshipPool w2 < fee then Inl InsufficientSponsorship
                    else
                     (case checked_sub (sponsorshipPool w2) fee of
                        Inl e \<Rightarrow> Inl e
                      | Inr pool \<Rightarrow>
                         (case erc20_transfer (sm_self w2) (sender env) fee
                                 (w2\<lparr>sponsorshipPool := pool\<rparr>) of
                            Inl e \<Rightarrow> Inl e
                          | Inr (ok, w3) \<Rightarrow> if \<not> ok then Inl TransferFailed else Inr w3)))
                 else Inr w2) = Inr w3"
      and w': "w' = emit (WithdrawnSigned sid ?emp (sender env) fee) w3"
    by (auto simp: withdrawSigned_def Let_def split: if_splits sum.splits)
  have "if 0 < fee
         then unat fee \<le> unat (sponsorshipPool w)
            \<and> erc20_move (sm_self w) (sender env) fee
                 (w2\<lparr>sponsorshipPool := sponsorshipPool w - fee\<rparr>) = Inr w3
         else w3 = w2"
    using st fr
    by (auto simp: checked_sub_def word_less_nat_alt erc20_transfer_def
             split: if_splits sum.splits prod.splits)
  moreover have "unat (timestamp env) \<le> unat d" using dl by (simp add: word_less_nat_alt)
  ultimately show ?thesis using nn rc fitn w2 w' by blast
qed


text \<open>Unfolding everything a withdrawal in the sample world runs through.\<close>

lemmas demo_eval = withdraw_def withdrawSigned_def executeWithdraw_def yv_withdraw_def
  simulateYield_def pendingYield_def erc20_transfer_def erc20_move_def checked_add_def
  checked_sub_def checked_mul_def emit_def Let_def demo_recover_def at_time_def
  new_stream_def demo_def





section \<open>Batch creation\<close>

lemma validate_iff:
  "validateStreamParams (inp_employee inp) (inp_ratePerSecond inp) (inp_taxBps inp) = Inr ()
     \<longleftrightarrow> spec_valid_entry inp"
  by (auto simp: validateStreamParams_def spec_valid_entry_def MAX_RATE_def MAX_TAX_BPS_def
        word_less_nat_alt word_le_nat_alt unat_gt_0)

lemma unat_add_of_nat:
  "unat n + i < 2 ^ 256 \<Longrightarrow> unat (n + of_nat i :: u256) = unat n + i"
proof -
  assume a: "unat n + i < 2 ^ 256"
  then have i: "i < 2 ^ 256" by simp
  have "unat (of_nat i :: u256) = i" using i by (simp add: unat_of_nat)
  then show ?thesis using a unat_add_lem [of n "of_nat i"] by simp
qed

lemma batch_loop_Inr:
  "batch_loop cp inputs w = Inr w' \<Longrightarrow>
     (\<forall>inp\<in>set inputs. spec_valid_entry inp)
   \<and> unat (nextStreamId w) + length inputs < 2 ^ 256
   \<and> nextStreamId w' = nextStreamId w + of_nat (length inputs)
   \<and> (\<forall>i<length inputs. streams w' (nextStreamId w + of_nat i) = stream_of cp (inputs ! i))
   \<and> (\<forall>id. unat id < unat (nextStreamId w) \<longrightarrow> streams w' id = streams w id)
   \<and> (\<forall>id. unat (nextStreamId w) + length inputs \<le> unat id \<longrightarrow> streams w' id = streams w id)
   \<and> sm_self w' = sm_self w \<and> sm_owner w' = sm_owner w \<and> taxVault w' = taxVault w
   \<and> yieldVault w' = yieldVault w \<and> sponsorshipPool w' = sponsorshipPool w
   \<and> nonces w' = nonces w \<and> balances w' = balances w"
proof (induction inputs arbitrary: w)
  case Nil
  then show ?case using unsigned_less [of "nextStreamId w", where 'a = nat] by simp
next
  case (Cons inp rest)
  let ?n = "nextStreamId w"
  from Cons.prems have v: "spec_valid_entry inp"
    by (auto simp: validate_iff [symmetric] split: sum.splits)
  from Cons.prems obtain n1 where n1: "checked_add ?n 1 = Inr n1"
    by (auto split: sum.splits)
  then have n1eq: "n1 = ?n + 1" and fit1: "unat ?n + 1 < 2 ^ 256"
    by (auto simp: checked_add_def split: if_splits)
  have un1: "unat (?n + 1) = unat ?n + 1" using checked_add_unat [OF n1] n1eq by simp
  let ?w1 = "emit (StreamCreated ?n (inp_employee inp))
                (w\<lparr>nextStreamId := ?n + 1, streams := (streams w)(?n := stream_of cp inp)\<rparr>)"
  from Cons.prems v n1 n1eq have rest: "batch_loop cp rest ?w1 = Inr w'"
    by (simp add: validate_iff stream_of_def split: sum.splits)
  note ih = Cons.IH [OF rest]
  have nx: "nextStreamId ?w1 = ?n + 1" and st: "streams ?w1 = (streams w)(?n := stream_of cp inp)"
    by (simp_all add: emit_def)
  from ih have ih_valid: "\<forall>x\<in>set rest. spec_valid_entry x" by blast
  from ih have ih_fit: "unat (nextStreamId ?w1) + length rest < 2 ^ 256" by blast
  from ih have ih_next: "nextStreamId w' = nextStreamId ?w1 + of_nat (length rest)" by blast
  from ih have ih_at: "\<And>i. i < length rest \<Longrightarrow>
      streams w' (nextStreamId ?w1 + of_nat i) = stream_of cp (rest ! i)" by blast
  from ih have ih_below: "\<And>id. unat id < unat (nextStreamId ?w1) \<Longrightarrow>
      streams w' id = streams ?w1 id" by blast
  from ih have ih_above: "\<And>id. unat (nextStreamId ?w1) + length rest \<le> unat id \<Longrightarrow>
      streams w' id = streams ?w1 id" by blast
  from ih have ih_frame: "sm_self w' = sm_self ?w1 \<and> sm_owner w' = sm_owner ?w1
   \<and> taxVault w' = taxVault ?w1 \<and> yieldVault w' = yieldVault ?w1
   \<and> sponsorshipPool w' = sponsorshipPool ?w1
   \<and> nonces w' = nonces ?w1 \<and> balances w' = balances ?w1" by blast
  have fit: "unat ?n + length (inp # rest) < 2 ^ 256"
    using ih_fit by (simp add: nx un1)
  have valid: "\<forall>x\<in>set (inp # rest). spec_valid_entry x" using ih_valid v by simp
  have nxt: "nextStreamId w' = ?n + of_nat (length (inp # rest))"
    using ih_next by (simp add: nx add.assoc)
  have below: "streams w' id = streams w id" if "unat id < unat ?n" for id
  proof -
    have "unat id < unat (nextStreamId ?w1)" using that by (simp add: nx un1)
    then have "streams w' id = streams ?w1 id" by (rule ih_below)
    moreover have "id \<noteq> ?n" using that by auto
    ultimately show ?thesis by (simp add: st)
  qed
  have above: "streams w' id = streams w id" if "unat ?n + length (inp # rest) \<le> unat id" for id
  proof -
    have "unat (nextStreamId ?w1) + length rest \<le> unat id" using that by (simp add: nx un1)
    then have "streams w' id = streams ?w1 id" by (rule ih_above)
    moreover have "id \<noteq> ?n" using that by auto
    ultimately show ?thesis by (simp add: st)
  qed
  have at: "streams w' (?n + of_nat i) = stream_of cp ((inp # rest) ! i)"
    if "i < length (inp # rest)" for i
  proof (cases i)
    case 0
    have "unat ?n < unat (nextStreamId ?w1)" by (simp add: nx un1)
    then have "streams w' ?n = streams ?w1 ?n" by (rule ih_below)
    then show ?thesis using 0 by (simp add: st)
  next
    case (Suc j)
    then have "j < length rest" using that by simp
    then have "streams w' (nextStreamId ?w1 + of_nat j) = stream_of cp (rest ! j)"
      by (rule ih_at)
    then have "streams w' (?n + 1 + of_nat j) = stream_of cp (rest ! j)"
      by (simp only: nx)
    then show ?thesis using Suc by (simp add: add.assoc)
  qed
  have frame: "sm_self w' = sm_self w \<and> sm_owner w' = sm_owner w \<and> taxVault w' = taxVault w
   \<and> yieldVault w' = yieldVault w \<and> sponsorshipPool w' = sponsorshipPool w
   \<and> nonces w' = nonces w \<and> balances w' = balances w"
    using ih_frame by (simp add: emit_def)
  show ?case
  proof (intro conjI)
    show "\<forall>inp\<in>set (inp # rest). spec_valid_entry inp" by (rule valid)
    show "unat ?n + length (inp # rest) < 2 ^ 256" by (rule fit)
    show "nextStreamId w' = ?n + of_nat (length (inp # rest))" by (rule nxt)
    show "\<forall>i<length (inp # rest). streams w' (?n + of_nat i) = stream_of cp ((inp # rest) ! i)"
      using at by blast
    show "\<forall>id. unat id < unat ?n \<longrightarrow> streams w' id = streams w id"
      using below by blast
    show "\<forall>id. unat ?n + length (inp # rest) \<le> unat id \<longrightarrow> streams w' id = streams w id"
      using above by blast
  qed (use frame in simp_all)
qed

lemma batch_loop_ok:
  "(\<forall>inp\<in>set inputs. spec_valid_entry inp) \<Longrightarrow>
     unat (nextStreamId w) + length inputs < 2 ^ 256 \<Longrightarrow>
     \<exists>w'. batch_loop cp inputs w = Inr w'"
proof (induction inputs arbitrary: w)
  case Nil
  then show ?case by simp
next
  case (Cons inp rest)
  let ?n = "nextStreamId w"
  from Cons.prems(2) have fit1: "unat ?n + unat (1::u256) < 2 ^ 256" by simp
  from checked_add_ok [OF fit1]
  have c: "checked_add ?n 1 = Inr (?n + 1)" and u: "unat (?n + 1) = unat ?n + 1" by simp_all
  let ?w1 = "emit (StreamCreated ?n (inp_employee inp))
                (w\<lparr>nextStreamId := ?n + 1, streams := (streams w)(?n :=
                     new_stream (inp_employee inp) (inp_ratePerSecond inp) cp (inp_taxBps inp))\<rparr>)"
  have nx: "nextStreamId ?w1 = ?n + 1" by (simp add: emit_def)
  have fit: "unat (nextStreamId ?w1) + length rest < 2 ^ 256"
    using Cons.prems(2) by (simp add: nx u)
  have rest: "\<forall>x\<in>set rest. spec_valid_entry x" using Cons.prems(1) by simp
  from Cons.IH [OF rest fit] obtain w' where w': "batch_loop cp rest ?w1 = Inr w'" by blast
  have v: "validateStreamParams (inp_employee inp) (inp_ratePerSecond inp) (inp_taxBps inp)
      = Inr ()"
    using Cons.prems(1) by (simp add: validate_iff)
  have "batch_loop cp (inp # rest) w = batch_loop cp rest ?w1"
    by (simp add: v c)
  then show ?case using w' by simp
qed

lemma batch_loop_invalid:
  assumes "\<not> (\<forall>inp\<in>set inputs. spec_valid_entry inp)"
  shows "\<exists>e. batch_loop cp inputs w = Inl e"
proof (cases "batch_loop cp inputs w")
  case (Inl e)
  then show ?thesis by blast
next
  case (Inr w')
  from batch_loop_Inr [OF this] have "\<forall>inp\<in>set inputs. spec_valid_entry inp" by blast
  with assms show ?thesis by contradiction
qed


lemma batch_single:
  "sender env = sm_owner w \<Longrightarrow>
     batchCreateStreams env [inp] w
       = createStream env (inp_employee inp) (inp_ratePerSecond inp) (inp_taxBps inp) w"
  by (simp add: batchCreateStreams_def createStream_def MAX_BATCH_def split: sum.splits)

text \<open>
  C7. \<^verbatim>\<open>batchCreateStreams\<close>, called by the owner (it is an administrative operation;
  any other caller is turned away by \<^verbatim>\<open>onlyOwner\<close>), fails with \<open>InvalidBatchSize\<close>
  for every list of length 0 or more than 200. For 1 to 200 entries it applies to every
  entry the validation \<^verbatim>\<open>createStream\<close> applies (a batch of one entry is exactly
  \<^verbatim>\<open>createStream\<close>); if any entry is invalid the call fails and the transaction
  leaves the world as it was, so no stream is created; and when it succeeds every entry
  was valid and the streams it created, at consecutive identifiers, all carry the one
  checkpoint taken at the start of the call.
\<close>

theorem batchCreateStreams_atomic:
  assumes owner: "sender env = sm_owner w"
  shows "(length inputs = 0 \<or> 200 < length inputs \<longrightarrow>
            batchCreateStreams env inputs w = Inl InvalidBatchSize)
       \<and> (1 \<le> length inputs \<longrightarrow> length inputs \<le> 200 \<longrightarrow>
            (\<exists>inp\<in>set inputs. \<not> spec_valid_entry inp) \<longrightarrow>
              (\<exists>e. batchCreateStreams env inputs w = Inl e)
            \<and> transact r env (Call_batchCreateStreams inputs) w = w)
       \<and> (1 \<le> length inputs \<longrightarrow> length inputs \<le> 200 \<longrightarrow>
            (\<forall>inp\<in>set inputs. spec_valid_entry inp) \<longrightarrow>
            unat (nextStreamId w) + length inputs < 2 ^ 256 \<longrightarrow>
              (\<exists>w'. batchCreateStreams env inputs w = Inr w'))
       \<and> (\<forall>w'. batchCreateStreams env inputs w = Inr w' \<longrightarrow>
              1 \<le> length inputs \<and> length inputs \<le> 200
            \<and> (\<forall>inp\<in>set inputs. spec_valid_entry inp)
            \<and> nextStreamId w' = nextStreamId w + of_nat (length inputs)
            \<and> (\<forall>i<length inputs.
                  streams w' (nextStreamId w + of_nat i)
                    = stream_of (ucast (timestamp env)) (inputs ! i)
                \<and> lastCheckpoint (streams w' (nextStreamId w + of_nat i))
                    = ucast (timestamp env))
            \<and> (\<forall>id. unat id < unat (nextStreamId w) \<longrightarrow> streams w' id = streams w id))
       \<and> (\<forall>inp. (validateStreamParams (inp_employee inp) (inp_ratePerSecond inp) (inp_taxBps inp)
                    = Inr ()) = spec_valid_entry inp
              \<and> batchCreateStreams env [inp] w
                  = createStream env (inp_employee inp) (inp_ratePerSecond inp) (inp_taxBps inp) w)"
proof -
  let ?cp = "ucast (timestamp env) :: u64"
  have size: "batchCreateStreams env inputs w = Inl InvalidBatchSize"
    if "length inputs = 0 \<or> 200 < length inputs"
    using that owner by (auto simp: batchCreateStreams_def MAX_BATCH_def)
  have loop: "batchCreateStreams env inputs w = batch_loop ?cp inputs w"
    if "1 \<le> length inputs" "length inputs \<le> 200"
    using that owner by (cases inputs) (simp_all add: batchCreateStreams_def MAX_BATCH_def)
  have bad: "(\<exists>e. batchCreateStreams env inputs w = Inl e)
            \<and> transact r env (Call_batchCreateStreams inputs) w = w"
    if len: "1 \<le> length inputs" "length inputs \<le> 200"
      and inv: "\<exists>inp\<in>set inputs. \<not> spec_valid_entry inp"
  proof -
    from inv have "\<not> (\<forall>inp\<in>set inputs. spec_valid_entry inp)" by blast
    from batch_loop_invalid [OF this] obtain e where "batch_loop ?cp inputs w = Inl e" by blast
    then have "batchCreateStreams env inputs w = Inl e" using loop [OF len] by simp
    then show ?thesis by (simp add: transact_def)
  qed
  have good: "\<exists>w'. batchCreateStreams env inputs w = Inr w'"
    if len: "1 \<le> length inputs" "length inputs \<le> 200"
      and v: "\<forall>inp\<in>set inputs. spec_valid_entry inp"
      and fit: "unat (nextStreamId w) + length inputs < 2 ^ 256"
    using batch_loop_ok [OF v fit] loop [OF len] by simp
  have res: "1 \<le> length inputs \<and> length inputs \<le> 200
            \<and> (\<forall>inp\<in>set inputs. spec_valid_entry inp)
            \<and> nextStreamId w' = nextStreamId w + of_nat (length inputs)
            \<and> (\<forall>i<length inputs.
                  streams w' (nextStreamId w + of_nat i) = stream_of ?cp (inputs ! i)
                \<and> lastCheckpoint (streams w' (nextStreamId w + of_nat i)) = ?cp)
            \<and> (\<forall>id. unat id < unat (nextStreamId w) \<longrightarrow> streams w' id = streams w id)"
    if ok: "batchCreateStreams env inputs w = Inr w'" for w'
  proof -
    have "\<not> (length inputs = 0 \<or> 200 < length inputs)"
      using ok size by auto
    then have len: "1 \<le> length inputs" "length inputs \<le> 200"
      by (cases inputs; simp)+
    then have "batch_loop ?cp inputs w = Inr w'" using ok loop by simp
    note b = batch_loop_Inr [OF this]
    from b have at: "\<forall>i<length inputs. streams w' (nextStreamId w + of_nat i) = stream_of ?cp (inputs ! i)"
      by blast
    then have "\<forall>i<length inputs. lastCheckpoint (streams w' (nextStreamId w + of_nat i)) = ?cp"
      by (simp add: stream_of_def new_stream_def)
    with at b len show ?thesis by blast
  qed
  show ?thesis using size bad good res batch_single [OF owner] validate_iff by blast
qed

theorem batchCreateStreams_atomic_witness:
  "batchCreateStreams (at_time 1000 2) [] demo = Inl InvalidBatchSize
 \<and> batchCreateStreams (at_time 1000 2) (replicate 201 (hd demo_inputs)) demo = Inl InvalidBatchSize
 \<and> (\<exists>e. batchCreateStreams (at_time 1000 2) demo_bad_inputs demo = Inl e)
 \<and> transact demo_recover (at_time 1000 2) (Call_batchCreateStreams demo_bad_inputs) demo = demo
 \<and> (\<exists>w'. batchCreateStreams (at_time 1000 2) demo_inputs demo = Inr w'
        \<and> nextStreamId w' = 3
        \<and> lastCheckpoint (streams w' 1) = 1000 \<and> lastCheckpoint (streams w' 2) = 1000
        \<and> employee (streams w' 1) = 14 \<and> employee (streams w' 2) = 15
        \<and> streams w' 0 = streams demo 0)"
proof -
  have owner: "sender (at_time 1000 2) = sm_owner demo" by (simp add: at_time_def demo_def)
  note t0 = batchCreateStreams_atomic [OF owner, where inputs = "[]" and r = demo_recover]
  note t1 = batchCreateStreams_atomic [OF owner, where inputs = "replicate 201 (hd demo_inputs)"
      and r = demo_recover]
  note t2 = batchCreateStreams_atomic [OF owner, where inputs = demo_bad_inputs and r = demo_recover]
  note t3 = batchCreateStreams_atomic [OF owner, where inputs = demo_inputs and r = demo_recover]
  have a: "batchCreateStreams (at_time 1000 2) [] demo = Inl InvalidBatchSize"
    using t0 by simp
  have b: "batchCreateStreams (at_time 1000 2) (replicate 201 (hd demo_inputs)) demo = Inl InvalidBatchSize"
    using t1 by simp
  have "\<exists>inp\<in>set demo_bad_inputs. \<not> spec_valid_entry inp"
    by (simp add: demo_bad_inputs_def spec_valid_entry_def)
  then have c: "(\<exists>e. batchCreateStreams (at_time 1000 2) demo_bad_inputs demo = Inl e)
      \<and> transact demo_recover (at_time 1000 2) (Call_batchCreateStreams demo_bad_inputs) demo = demo"
    using t2 by (simp add: demo_bad_inputs_def)
  have v: "\<forall>inp\<in>set demo_inputs. spec_valid_entry inp"
    by (simp add: demo_inputs_def spec_valid_entry_def)
  have fit: "unat (nextStreamId demo) + length demo_inputs < 2 ^ 256"
    by (simp add: demo_inputs_def demo_def)
  from t3 v fit obtain w' where w': "batchCreateStreams (at_time 1000 2) demo_inputs demo = Inr w'"
    by (auto simp: demo_inputs_def)
  from t3 w' have r: "nextStreamId w' = nextStreamId demo + of_nat (length demo_inputs)"
    "\<forall>i<length demo_inputs.
        streams w' (nextStreamId demo + of_nat i)
          = stream_of (ucast (timestamp (at_time 1000 2))) (demo_inputs ! i)"
    "\<forall>id. unat id < unat (nextStreamId demo) \<longrightarrow> streams w' id = streams demo id"
    by blast+
  have s1: "streams w' 1 = stream_of 1000 (demo_inputs ! 0)"
    using r(2) [rule_format, of 0] by (simp add: demo_inputs_def demo_def at_time_def)
  have s2: "streams w' 2 = stream_of 1000 (demo_inputs ! 1)"
    using r(2) [rule_format, of 1] by (simp add: demo_inputs_def demo_def at_time_def)
  have s0: "streams w' 0 = streams demo 0"
    using r(3) [rule_format, of 0] by (simp add: demo_def)
  have d: "nextStreamId w' = 3 \<and> lastCheckpoint (streams w' 1) = 1000
        \<and> lastCheckpoint (streams w' 2) = 1000
        \<and> employee (streams w' 1) = 14 \<and> employee (streams w' 2) = 15
        \<and> streams w' 0 = streams demo 0"
    using r(1) s0 by (simp add: s1 s2 stream_of_def new_stream_def demo_inputs_def demo_def)
  show ?thesis using a b c w' d by blast
qed

section \<open>What each operation leaves untouched\<close>

lemma same_manager_refl: "same_manager w w"
  by (simp add: same_manager_def)

lemma same_manager_trans: "same_manager a b \<Longrightarrow> same_manager b c \<Longrightarrow> same_manager a c"
  by (simp add: same_manager_def)

lemma erc20_move_same: "erc20_move s d a w = Inr w' \<Longrightarrow> same_manager w w'"
  by (auto simp: same_manager_def dest!: erc20_move_Inr)

lemma erc20_set_allowance_same: "erc20_set_allowance h s a w = Inr w' \<Longrightarrow> same_manager w w'"
  by (auto simp: same_manager_def erc20_set_allowance_def emit_def split: if_splits)

lemma erc20_approve_same: "erc20_approve c s a w = Inr (ok, w') \<Longrightarrow> same_manager w w'"
  by (auto simp: erc20_approve_def split: sum.splits dest: erc20_set_allowance_same)

lemma erc20_transferFrom_same:
  "erc20_transferFrom c s d a w = Inr (ok, w') \<Longrightarrow> same_manager w w'"
  by (auto simp: erc20_transferFrom_def Let_def split: sum.splits if_splits
        dest!: erc20_set_allowance_same erc20_move_same intro: same_manager_trans)

lemma simulateYield_same: "simulateYield env w = Inr w' \<Longrightarrow> same_manager w w'"
  by (auto simp: same_manager_def dest!: simulateYield_Inr)

lemma yv_deposit_same:
  assumes "yv_deposit env a w = Inr w'"
  shows "same_manager w w'"
proof -
  from assms obtain w1 where w1: "simulateYield env w = Inr w1"
    by (auto simp: yv_deposit_def split: if_splits sum.splits)
  with assms obtain p ok w2
    where "erc20_transferFrom (yieldVault w1) (sender env) (yieldVault w1) a
             (w1\<lparr>totalPrincipal := p\<rparr>) = Inr (ok, w2)"
      and "w' = emit (Deposit (sender env) a) w2"
    by (auto simp: yv_deposit_def split: if_splits sum.splits prod.splits)
  then have "same_manager (w1\<lparr>totalPrincipal := p\<rparr>) w'"
    by (auto simp: same_manager_def emit_def dest!: erc20_transferFrom_same)
  then show ?thesis using simulateYield_same [OF w1] by (simp add: same_manager_def)
qed

lemma depositTreasury_same:
  assumes "depositTreasury env a w = Inr w'"
  shows "same_manager w w'"
proof -
  from assms obtain ok w1
    where w1: "erc20_transferFrom (sm_self w) (sender env) (sm_self w) a w = Inr (ok, w1)"
    by (auto simp: depositTreasury_def split: if_splits sum.splits prod.splits)
  with assms obtain ok2 w2 where w2: "erc20_approve (sm_self w1) (yieldVault w1) a w1 = Inr (ok2, w2)"
    by (auto simp: depositTreasury_def split: if_splits sum.splits prod.splits)
  with assms w1 obtain w3 where w3: "yv_deposit (env\<lparr>sender := sm_self w2\<rparr>) a w2 = Inr w3"
    and w': "w' = emit (TreasuryDeposited (sender env) a) w3"
    by (auto simp: depositTreasury_def split: if_splits sum.splits prod.splits)
  have "same_manager w w3"
    using erc20_transferFrom_same [OF w1] erc20_approve_same [OF w2] yv_deposit_same [OF w3]
    by (blast intro: same_manager_trans)
  then show ?thesis using w' by (simp add: same_manager_def emit_def)
qed

lemma depositSponsorshipPool_frame:
  assumes "depositSponsorshipPool env a w = Inr w'"
  shows "streams w' = streams w \<and> nonces w' = nonces w \<and> nextStreamId w' = nextStreamId w"
proof -
  from assms obtain pool ok w1
    where "erc20_transferFrom (sm_self w) (sender env) (sm_self w) a
             (w\<lparr>sponsorshipPool := pool\<rparr>) = Inr (ok, w1)"
      and "w' = emit (SponsorshipDeposited (sender env) a) w1"
    by (auto simp: depositSponsorshipPool_def split: if_splits sum.splits prod.splits)
  then show ?thesis
    by (auto simp: same_manager_def emit_def dest!: erc20_transferFrom_same)
qed

lemma createStream_frame:
  assumes "createStream env e rate tax w = Inr w'"
  shows "nonces w' = nonces w \<and> unat (nextStreamId w') = unat (nextStreamId w) + 1
       \<and> (\<forall>id. id \<noteq> nextStreamId w \<longrightarrow> streams w' id = streams w id)"
proof -
  from assms obtain n where n: "checked_add (nextStreamId w) 1 = Inr n"
    and w': "w' = emit (StreamCreated (nextStreamId w) e)
                (w\<lparr>nextStreamId := n,
                   streams := (streams w)(nextStreamId w :=
                     new_stream e rate (ucast (timestamp env)) tax)\<rparr>)"
    by (auto simp: createStream_def split: if_splits sum.splits)
  show ?thesis using checked_add_unat [OF n] w' by (simp add: emit_def)
qed

lemma lifecycle_frames:
  "scheduleBonus env i a t w = Inr w' \<Longrightarrow>
     active (streams w i) \<and> nonces w' = nonces w \<and> nextStreamId w' = nextStreamId w
     \<and> (\<forall>id. id \<noteq> i \<longrightarrow> streams w' id = streams w id)"
  "pauseStream env i w = Inr w' \<Longrightarrow>
     active (streams w i) \<and> nonces w' = nonces w \<and> nextStreamId w' = nextStreamId w
     \<and> (\<forall>id. id \<noteq> i \<longrightarrow> streams w' id = streams w id)"
  "resumeStream env i w = Inr w' \<Longrightarrow>
     active (streams w i) \<and> nonces w' = nonces w \<and> nextStreamId w' = nextStreamId w
     \<and> (\<forall>id. id \<noteq> i \<longrightarrow> streams w' id = streams w id)"
  "cancelStream env i w = Inr w' \<Longrightarrow>
     active (streams w i) \<and> nonces w' = nonces w \<and> nextStreamId w' = nextStreamId w
     \<and> (\<forall>id. id \<noteq> i \<longrightarrow> streams w' id = streams w id)"
  by (auto simp: scheduleBonus_def pauseStream_def resumeStream_def cancelStream_def emit_def
        split: if_splits)

lemma ownership_frames:
  "transferOwnership env a w = Inr w' \<Longrightarrow>
     streams w' = streams w \<and> nonces w' = nonces w \<and> nextStreamId w' = nextStreamId w"
  "renounceOwnership env w = Inr w' \<Longrightarrow>
     streams w' = streams w \<and> nonces w' = nonces w \<and> nextStreamId w' = nextStreamId w"
  by (auto simp: transferOwnership_def renounceOwnership_def emit_def split: if_splits)

lemma withdraw_frame:
  assumes "withdraw env i w = Inr w'"
  shows "active (streams w i) \<and> nonces w' = nonces w \<and> nextStreamId w' = nextStreamId w
     \<and> (\<forall>id. id \<noteq> i \<longrightarrow> streams w' id = streams w id)"
proof -
  from assms have ok: "executeWithdraw env i w = Inr w'" by (simp add: withdraw_def)
  show ?thesis using executeWithdraw_frame [OF ok] executeWithdraw_flags [OF ok] by simp
qed

lemma withdrawSigned_frame:
  assumes ok: "withdrawSigned r env i n d fee sg w = Inr w'"
  shows "active (streams w i) \<and> nextStreamId w' = nextStreamId w
     \<and> (\<forall>id. id \<noteq> i \<longrightarrow> streams w' id = streams w id)
     \<and> n = nonces w (employee (streams w i)) \<and> unat n + 1 < 2 ^ 256
     \<and> nonces w' = (nonces w)(employee (streams w i) := n + 1)"
proof -
  let ?emp = "employee (streams w i)"
  let ?wn = "w\<lparr>nonces := (nonces w)(?emp := n + 1)\<rparr>"
  from withdrawSigned_Inr [OF ok] obtain w2 w3
    where nn: "n = nonces w ?emp" "unat n + 1 < 2 ^ 256"
      and w2: "executeWithdraw env i ?wn = Inr w2"
      and w3: "if 0 < fee
         then unat fee \<le> unat (sponsorshipPool w)
            \<and> erc20_move (sm_self w) (sender env) fee
                 (w2\<lparr>sponsorshipPool := sponsorshipPool w - fee\<rparr>) = Inr w3
         else w3 = w2"
      and w': "w' = emit (WithdrawnSigned i ?emp (sender env) fee) w3"
    by blast
  note f2 = executeWithdraw_frame [OF w2]
  have f3: "streams w3 = streams w2 \<and> nonces w3 = nonces w2 \<and> nextStreamId w3 = nextStreamId w2"
    using w3 by (auto simp: same_manager_def dest!: erc20_move_same split: if_splits)
  have "active (streams w i)" using withdrawSigned_flags [OF ok] by simp
  then show ?thesis using nn f2 f3 w' by (simp add: emit_def)
qed


lemma batchCreateStreams_frame:
  assumes "batchCreateStreams env inputs w = Inr w'"
  shows "nonces w' = nonces w \<and> unat (nextStreamId w) \<le> unat (nextStreamId w')
       \<and> (\<forall>id. unat id < unat (nextStreamId w) \<longrightarrow> streams w' id = streams w id)"
proof -
  from assms have "batch_loop (ucast (timestamp env)) inputs w = Inr w'"
    by (simp add: batchCreateStreams_def split: if_splits)
  note b = batch_loop_Inr [OF this]
  from b have fit: "unat (nextStreamId w) + length inputs < 2 ^ 256"
    and nx: "nextStreamId w' = nextStreamId w + of_nat (length inputs)" by blast+
  have "unat (nextStreamId w') = unat (nextStreamId w) + length inputs"
    using unat_add_of_nat [OF fit] nx by simp
  then show ?thesis using b by simp
qed

lemma exec_step:
  assumes ok: "exec r env c w = Inr w'"
  shows "unat (nextStreamId w) \<le> unat (nextStreamId w')
       \<and> (\<forall>id. unat id < unat (nextStreamId w) \<longrightarrow> \<not> active (streams w id) \<longrightarrow>
              streams w' id = streams w id)
       \<and> (\<forall>a. nonces w' a = nonces w a
              \<or> (\<exists>sid n d fee sg. c = Call_withdrawSigned sid n d fee sg
                    \<and> a = employee (streams w sid) \<and> n = nonces w a
                    \<and> unat (nonces w' a) = unat n + 1))"
proof (cases c)
  case (Call_depositTreasury a)
  with ok have "same_manager w w'" by (auto dest: depositTreasury_same)
  then show ?thesis by (simp add: same_manager_def)
next
  case (Call_depositSponsorshipPool a)
  with ok show ?thesis by (auto dest!: depositSponsorshipPool_frame)
next
  case (Call_createStream e rate tax)
  with ok have f: "nonces w' = nonces w" "unat (nextStreamId w') = unat (nextStreamId w) + 1"
    "\<forall>id. id \<noteq> nextStreamId w \<longrightarrow> streams w' id = streams w id"
    by (auto dest!: createStream_frame)
  have "streams w' id = streams w id" if "unat id < unat (nextStreamId w)" for id
  proof -
    from that have "id \<noteq> nextStreamId w" by auto
    then show ?thesis using f(3) by simp
  qed
  then show ?thesis using f by simp
next
  case (Call_batchCreateStreams inputs)
  with ok show ?thesis by (auto dest!: batchCreateStreams_frame)
next
  case (Call_scheduleBonus i a t)
  with ok have "active (streams w i) \<and> nonces w' = nonces w \<and> nextStreamId w' = nextStreamId w
     \<and> (\<forall>id. id \<noteq> i \<longrightarrow> streams w' id = streams w id)"
    by (auto dest!: lifecycle_frames(1))
  then show ?thesis by auto
next
  case (Call_pauseStream i)
  with ok have "active (streams w i) \<and> nonces w' = nonces w \<and> nextStreamId w' = nextStreamId w
     \<and> (\<forall>id. id \<noteq> i \<longrightarrow> streams w' id = streams w id)"
    by (auto dest!: lifecycle_frames(2))
  then show ?thesis by auto
next
  case (Call_resumeStream i)
  with ok have "active (streams w i) \<and> nonces w' = nonces w \<and> nextStreamId w' = nextStreamId w
     \<and> (\<forall>id. id \<noteq> i \<longrightarrow> streams w' id = streams w id)"
    by (auto dest!: lifecycle_frames(3))
  then show ?thesis by auto
next
  case (Call_cancelStream i)
  with ok have "active (streams w i) \<and> nonces w' = nonces w \<and> nextStreamId w' = nextStreamId w
     \<and> (\<forall>id. id \<noteq> i \<longrightarrow> streams w' id = streams w id)"
    by (auto dest!: lifecycle_frames(4))
  then show ?thesis by auto
next
  case (Call_withdraw i)
  with ok have "active (streams w i) \<and> nonces w' = nonces w \<and> nextStreamId w' = nextStreamId w
     \<and> (\<forall>id. id \<noteq> i \<longrightarrow> streams w' id = streams w id)"
    by (auto dest!: withdraw_frame)
  then show ?thesis by auto
next
  case (Call_withdrawSigned i n d fee sg)
  with ok have f: "active (streams w i)" "nextStreamId w' = nextStreamId w"
     "\<forall>id. id \<noteq> i \<longrightarrow> streams w' id = streams w id"
     "n = nonces w (employee (streams w i))" "unat n + 1 < 2 ^ 256"
     "nonces w' = (nonces w)(employee (streams w i) := n + 1)"
    by (auto dest!: withdrawSigned_frame)
  have un: "unat (n + 1) = unat n + 1"
    using f(5) checked_add_ok [of n 1] by simp
  have "nonces w' a = nonces w a
              \<or> (\<exists>sid n d fee sg. c = Call_withdrawSigned sid n d fee sg
                    \<and> a = employee (streams w sid) \<and> n = nonces w a
                    \<and> unat (nonces w' a) = unat n + 1)" for a
  proof (cases "a = employee (streams w i)")
    case True
    then have "unat (nonces w' a) = unat n + 1" using f(6) un by simp
    then show ?thesis using True f(4) Call_withdrawSigned by blast
  next
    case False
    then show ?thesis using f(6) by simp
  qed
  moreover have "\<forall>id. unat id < unat (nextStreamId w) \<longrightarrow> \<not> active (streams w id) \<longrightarrow>
              streams w' id = streams w id"
    using f(1,3) by auto
  ultimately show ?thesis using f(2) by simp
next
  case (Call_transferOwnership a)
  with ok show ?thesis by (auto dest!: ownership_frames(1))
next
  case Call_renounceOwnership
  with ok show ?thesis by (auto dest!: ownership_frames(2))
qed

lemma transact_step:
  "unat (nextStreamId w) \<le> unat (nextStreamId (transact r env c w))
   \<and> (\<forall>id. unat id < unat (nextStreamId w) \<longrightarrow> \<not> active (streams w id) \<longrightarrow>
          streams (transact r env c w) id = streams w id)
   \<and> (\<forall>a. unat (nonces w a) \<le> unat (nonces (transact r env c w) a))"
proof (cases "exec r env c w")
  case (Inl e)
  then show ?thesis by (simp add: transact_def)
next
  case (Inr w')
  note s = exec_step [OF Inr]
  have "unat (nonces w a) \<le> unat (nonces w' a)" for a
    using s by (metis le_add1 order_refl)
  then show ?thesis using s Inr by (simp add: transact_def)
qed

lemma reach_nonces_mono:
  "reach r w w2 \<Longrightarrow> unat (nonces w a) \<le> unat (nonces w2 a)"
proof (induction rule: reach.induct)
  case reach_refl
  then show ?case by simp
next
  case (reach_call w1 env c)
  then show ?case using transact_step [of w1 r env c] by (meson le_trans)
next
  case (reach_outside w1 w2)
  then show ?case by (simp add: same_manager_def)
qed

lemma reach_inactive_frozen:
  "reach r w w2 \<Longrightarrow> \<not> active (streams w sid) \<Longrightarrow> unat sid < unat (nextStreamId w) \<Longrightarrow>
     streams w2 sid = streams w sid \<and> unat sid < unat (nextStreamId w2)"
proof (induction rule: reach.induct)
  case reach_refl
  then show ?case by simp
next
  case (reach_call w1 env c)
  then have h: "streams w1 sid = streams w sid" "unat sid < unat (nextStreamId w1)" by simp_all
  then have "\<not> active (streams w1 sid)" using reach_call.prems by simp
  then show ?case using transact_step [of w1 r env c] h by auto
next
  case (reach_outside w1 w2)
  then show ?case by (simp add: same_manager_def)
qed

lemma withdrawSigned_inactive:
  assumes "\<not> active (streams w sid)"
  shows "withdrawSigned r env sid n d fee sg w =
           Inl (case signature_checks r env sid n d sg w of
                  Some e \<Rightarrow> e
                | None \<Rightarrow> if unat n + 1 < 2 ^ 256 then StreamInactive sid else Panic)"
proof -
  have "executeWithdraw env sid (w\<lparr>nonces := x\<rparr>) = Inl (StreamInactive sid)" for x
    using assms by (simp add: executeWithdraw_def)
  then show ?thesis
    by (auto simp: withdrawSigned_def signature_checks_def checked_add_def Let_def
          split: sum.splits)
qed


section \<open>Cancellation\<close>

lemma demo_cancel: "cancelStream (at_time 100 2) 0 demo = Inr demo_cancelled"
  by (simp add: cancelStream_def demo_def demo_cancelled_def at_time_def new_stream_def emit_def)

text \<open>
  C5, as stated, fails on a signed withdrawal whose own checks do not pass: on the
  cancelled stream 0 a request whose deadline (150) has passed at time 200 is rejected
  with \<open>SignatureExpired\<close>, not \<open>StreamInactive\<close>, because the deadline is checked
  before the stream is looked at.
\<close>

theorem cancelled_signed_withdraw_counterexample:
  "cancelStream (at_time 100 2) 0 demo = Inr demo_cancelled
   \<and> withdrawSigned demo_recover (at_time 200 9) 0 0 150 0 [14] demo_cancelled
       = Inl SignatureExpired
   \<and> withdrawSigned demo_recover (at_time 200 9) 0 0 150 0 [14] demo_cancelled
       \<noteq> Inl (StreamInactive 0)"
  using demo_cancel
  by (simp add: withdrawSigned_def at_time_def)

text \<open>
  C5, amended. \<^verbatim>\<open>cancelStream\<close> by the owner on an active stream, paused or not, sets
  \<open>active = false\<close> and the checkpoint to now and moves no funds (no balance changes, the
  only event is \<open>StreamCancelled\<close>). In every world reachable afterwards, by any
  transactions and any outside activity, the stream is unchanged and so never active
  again; every \<^verbatim>\<open>withdraw\<close> on it fails with \<open>StreamInactive\<close>; and every
  \<^verbatim>\<open>withdrawSigned\<close> on it fails, with the error of its first failing check or,
  when the request passes its checks, with \<open>StreamInactive\<close>. Salary accrued before the
  cancellation and not withdrawn is therefore never paid. The stream is one that was
  created: its identifier is below \<open>nextStreamId\<close>.
\<close>

theorem cancel_is_terminal:
  assumes owner: "sender env = sm_owner w" and act: "active (streams w sid)"
      and created: "unat sid < unat (nextStreamId w)"
  shows "\<exists>w1. cancelStream env sid w = Inr w1
      \<and> streams w1 sid
          = (streams w sid)\<lparr>lastCheckpoint := ucast (timestamp env), active := False\<rparr>
      \<and> balances w1 = balances w
      \<and> events w1 = events w @ [StreamCancelled sid]
      \<and> (\<forall>w2. reach r w1 w2 \<longrightarrow>
             \<not> active (streams w2 sid)
           \<and> streams w2 sid = streams w1 sid
           \<and> (\<forall>env'. withdraw env' sid w2 = Inl (StreamInactive sid))
           \<and> (\<forall>r' env' n d fee sg.
                 withdrawSigned r' env' sid n d fee sg w2 =
                   Inl (case signature_checks r' env' sid n d sg w2 of
                          Some e \<Rightarrow> e
                        | None \<Rightarrow> if unat n + 1 < 2 ^ 256 then StreamInactive sid else Panic)))"
proof -
  let ?w1 = "emit (StreamCancelled sid)
            (w\<lparr>streams := (streams w)(sid := (streams w sid)
               \<lparr>lastCheckpoint := ucast (timestamp env), active := False\<rparr>)\<rparr>)"
  have c: "cancelStream env sid w = Inr ?w1"
    using owner act by (simp add: cancelStream_def)
  have s1: "streams ?w1 sid
          = (streams w sid)\<lparr>lastCheckpoint := ucast (timestamp env), active := False\<rparr>"
    and b1: "balances ?w1 = balances w" and e1: "events ?w1 = events w @ [StreamCancelled sid]"
    and n1: "nextStreamId ?w1 = nextStreamId w"
    by (simp_all add: emit_def)
  have off: "\<not> active (streams ?w1 sid)" by (simp add: s1)
  have cr: "unat sid < unat (nextStreamId ?w1)" using created by (simp add: n1)
  have after: "\<not> active (streams w2 sid)
           \<and> streams w2 sid = streams ?w1 sid
           \<and> (\<forall>env'. withdraw env' sid w2 = Inl (StreamInactive sid))
           \<and> (\<forall>r' env' n d fee sg.
                 withdrawSigned r' env' sid n d fee sg w2 =
                   Inl (case signature_checks r' env' sid n d sg w2 of
                          Some e \<Rightarrow> e
                        | None \<Rightarrow> if unat n + 1 < 2 ^ 256 then StreamInactive sid else Panic))"
    if r: "reach r ?w1 w2" for w2
  proof -
    from reach_inactive_frozen [OF r off cr] have fz: "streams w2 sid = streams ?w1 sid" by simp
    then have off2: "\<not> active (streams w2 sid)" using off by simp
    show ?thesis
      using fz off2 withdraw_inactive [OF off2] withdrawSigned_inactive [OF off2] by simp
  qed
  show ?thesis using c s1 b1 e1 after by blast
qed

theorem cancel_is_terminal_witness:
  "cancelStream (at_time 100 2) 0 demo = Inr demo_cancelled
   \<and> lastCheckpoint (streams demo_cancelled 0) = 100
   \<and> \<not> active (streams demo_cancelled 0)
   \<and> balances demo_cancelled = balances demo
   \<and> nextStreamId (transact demo_recover (at_time 150 2) (Call_createStream 15 2 0) demo_cancelled) = 2
   \<and> \<not> active (streams (transact demo_recover (at_time 150 2) (Call_createStream 15 2 0) demo_cancelled) 0)
   \<and> withdraw (at_time 200 14) 0
        (transact demo_recover (at_time 150 2) (Call_createStream 15 2 0) demo_cancelled)
        = Inl (StreamInactive 0)
   \<and> withdrawSigned demo_recover (at_time 200 9) 0 0 300 0 [14]
        (transact demo_recover (at_time 150 2) (Call_createStream 15 2 0) demo_cancelled)
        = Inl (StreamInactive 0)"
proof -
  let ?w2 = "transact demo_recover (at_time 150 2) (Call_createStream 15 2 0) demo_cancelled"
  have owner: "sender (at_time 100 2) = sm_owner demo" and act: "active (streams demo 0)"
    and created: "unat (0::u256) < unat (nextStreamId demo)"
    by (simp_all add: at_time_def demo_def new_stream_def)
  have r: "reach demo_recover demo_cancelled ?w2"
    by (rule reach_call [OF reach_refl])
  from cancel_is_terminal [OF owner act created, of demo_recover] demo_cancel r
  have t: "\<not> active (streams ?w2 0)" "streams ?w2 0 = streams demo_cancelled 0"
    "withdraw (at_time 200 14) 0 ?w2 = Inl (StreamInactive 0)"
    "withdrawSigned demo_recover (at_time 200 9) 0 0 300 0 [14] ?w2 =
       Inl (case signature_checks demo_recover (at_time 200 9) 0 0 300 [14] ?w2 of
              Some e \<Rightarrow> e
            | None \<Rightarrow> if unat (0::u256) + 1 < 2 ^ 256 then StreamInactive 0 else Panic)"
    by auto
  have w2: "nextStreamId ?w2 = 2" "nonces ?w2 = (\<lambda>_. 0)"
    by (simp_all add: transact_def createStream_def validateStreamParams_def MAX_RATE_def
          MAX_TAX_BPS_def checked_add_def emit_def demo_cancelled_def demo_def at_time_def)
  have "signature_checks demo_recover (at_time 200 9) 0 0 300 [14] ?w2 = None"
    unfolding signature_checks_def t(2) w2(2)
    by (simp add: demo_recover_def demo_cancelled_def demo_def at_time_def new_stream_def)
  then have "withdrawSigned demo_recover (at_time 200 9) 0 0 300 0 [14] ?w2 = Inl (StreamInactive 0)"
    using t(4) by simp
  moreover have "lastCheckpoint (streams demo_cancelled 0) = 100"
    "\<not> active (streams demo_cancelled 0)" "balances demo_cancelled = balances demo"
    by (simp_all add: demo_cancelled_def)
  ultimately show ?thesis using demo_cancel t(1,3) w2(1) by simp
qed

section \<open>Nonces\<close>

text \<open>
  C4, as stated, fails where a stale nonce meets an expired deadline: the deadline is
  checked first, so the request is rejected with \<open>SignatureExpired\<close>, not
  \<open>InvalidNonce\<close>.
\<close>

theorem stale_nonce_counterexample:
  "(7::u256) \<noteq> nonces demo (employee (streams demo 0))
   \<and> withdrawSigned demo_recover (at_time 100 9) 0 7 50 0 [14] demo = Inl SignatureExpired
   \<and> withdrawSigned demo_recover (at_time 100 9) 0 7 50 0 [14] demo \<noteq> Inl InvalidNonce"
  by (simp add: withdrawSigned_def at_time_def demo_def)

text \<open>
  C4, amended. \<^verbatim>\<open>withdrawSigned\<close> accepts a request only when the supplied nonce
  equals the employee's stored nonce; otherwise it fails, with \<open>SignatureExpired\<close> when
  the deadline has passed and with \<open>InvalidNonce\<close> in every other case. On acceptance
  the stored nonce is \<open>nonce + 1\<close> (no wrap-around), written before the withdrawal logic
  runs on the updated world. No stored nonce ever decreases, along any transactions and
  outside activity; a transaction changes a nonce only by an accepted signed withdrawal
  that used exactly the stored value and raised it by one; so a nonce accepted once is
  rejected for that employee in every later world, and a request whose nonce is below the
  stored one is rejected.
\<close>

theorem nonce_replay_protection:
  "(withdrawSigned r env sid n d fee sg w = Inr w' \<longrightarrow>
       n = nonces w (employee (streams w sid))
     \<and> nonces w' = (nonces w)(employee (streams w sid) := n + 1)
     \<and> unat (nonces w' (employee (streams w sid))) = unat n + 1
     \<and> (\<exists>w2. executeWithdraw env sid
                 (w\<lparr>nonces := (nonces w)(employee (streams w sid) := n + 1)\<rparr>) = Inr w2)
     \<and> (\<forall>wl. reach r w' wl \<longrightarrow>
           (\<forall>r2 env2 sid2 d2 fee2 sg2.
               employee (streams wl sid2) = employee (streams w sid) \<longrightarrow>
               (\<exists>e. withdrawSigned r2 env2 sid2 n d2 fee2 sg2 wl = Inl e))))
 \<and> (n \<noteq> nonces w (employee (streams w sid)) \<longrightarrow>
       withdrawSigned r env sid n d fee sg w
         = Inl (if d < timestamp env then SignatureExpired else InvalidNonce))
 \<and> (unat n < unat (nonces w (employee (streams w sid))) \<longrightarrow>
       (\<exists>e. withdrawSigned r env sid n d fee sg w = Inl e))
 \<and> (reach r w wl \<longrightarrow> unat (nonces w a) \<le> unat (nonces wl a))
 \<and> (exec r env c w = Inr w' \<longrightarrow>
       nonces w' a = nonces w a
     \<or> (\<exists>sid n d fee sg. c = Call_withdrawSigned sid n d fee sg
            \<and> a = employee (streams w sid) \<and> n = nonces w a
            \<and> unat (nonces w' a) = unat n + 1))"
proof -
  let ?emp = "employee (streams w sid)"
  have mismatch: "withdrawSigned r env sid n d fee sg w
         = Inl (if d < timestamp env then SignatureExpired else InvalidNonce)"
    if "n \<noteq> nonces w ?emp"
    using that by (simp add: withdrawSigned_def Let_def)
  have past: "\<exists>e. withdrawSigned r env sid n d fee sg w = Inl e"
    if "unat n < unat (nonces w ?emp)"
  proof -
    from that have "n \<noteq> nonces w ?emp" by auto
    from mismatch [OF this] show ?thesis by blast
  qed
  have accepted: "n = nonces w ?emp
     \<and> nonces w' = (nonces w)(?emp := n + 1)
     \<and> unat (nonces w' ?emp) = unat n + 1
     \<and> (\<exists>w2. executeWithdraw env sid (w\<lparr>nonces := (nonces w)(?emp := n + 1)\<rparr>) = Inr w2)
     \<and> (\<forall>wl. reach r w' wl \<longrightarrow>
           (\<forall>r2 env2 sid2 d2 fee2 sg2.
               employee (streams wl sid2) = ?emp \<longrightarrow>
               (\<exists>e. withdrawSigned r2 env2 sid2 n d2 fee2 sg2 wl = Inl e)))"
    if ok: "withdrawSigned r env sid n d fee sg w = Inr w'"
  proof -
    from withdrawSigned_frame [OF ok]
    have nn: "n = nonces w ?emp" and fit: "unat n + 1 < 2 ^ 256"
      and nw: "nonces w' = (nonces w)(?emp := n + 1)" by blast+
    have un: "unat (n + 1) = unat n + 1" using fit checked_add_ok [of n 1] by simp
    then have up: "unat (nonces w' ?emp) = unat n + 1" using nw by simp
    from withdrawSigned_Inr [OF ok]
    have ex: "\<exists>w2. executeWithdraw env sid (w\<lparr>nonces := (nonces w)(?emp := n + 1)\<rparr>) = Inr w2"
      by blast
    have replay: "\<exists>e. withdrawSigned r2 env2 sid2 n d2 fee2 sg2 wl = Inl e"
      if r: "reach r w' wl" and same: "employee (streams wl sid2) = ?emp"
      for wl r2 env2 sid2 d2 fee2 sg2
    proof -
      have "unat (nonces w' ?emp) \<le> unat (nonces wl ?emp)" by (rule reach_nonces_mono [OF r])
      then have "n \<noteq> nonces wl (employee (streams wl sid2))" using up same by auto
      then show ?thesis by (simp add: withdrawSigned_def Let_def)
    qed
    show ?thesis using nn nw up ex replay by blast
  qed
  have mono: "unat (nonces w a) \<le> unat (nonces wl a)" if "reach r w wl"
    by (rule reach_nonces_mono [OF that])
  have step: "nonces w' a = nonces w a
     \<or> (\<exists>sid n d fee sg. c = Call_withdrawSigned sid n d fee sg
            \<and> a = employee (streams w sid) \<and> n = nonces w a
            \<and> unat (nonces w' a) = unat n + 1)"
    if "exec r env c w = Inr w'"
    using exec_step [OF that] by blast
  show ?thesis using accepted mismatch past mono step by blast
qed


lemma demo_signed:
  "\<exists>wA. withdrawSigned demo_recover (at_time 100 9) 0 0 300 0 [14] demo = Inr wA
      \<and> employee (streams wA 0) = 14"
  by (simp add: demo_eval)

theorem nonce_replay_protection_witness:
  "(\<exists>wA. withdrawSigned demo_recover (at_time 100 9) 0 0 300 0 [14] demo = Inr wA
      \<and> unat (nonces wA 14) = 1
      \<and> (\<exists>e. withdrawSigned demo_recover (at_time 120 9) 0 0 300 0 [14] wA = Inl e))
 \<and> withdrawSigned demo_recover (at_time 100 9) 0 7 300 0 [14] demo = Inl InvalidNonce
 \<and> withdrawSigned demo_recover (at_time 100 9) 0 7 50 0 [14] demo = Inl SignatureExpired
 \<and> unat (nonces demo 14)
      \<le> unat (nonces (transact demo_recover (at_time 100 9)
                         (Call_withdrawSigned 0 0 300 0 [14]) demo) 14)"
proof -
  let ?wl = "transact demo_recover (at_time 100 9) (Call_withdrawSigned 0 0 300 0 [14]) demo"
  obtain wA where wA: "withdrawSigned demo_recover (at_time 100 9) 0 0 300 0 [14] demo = Inr wA"
    and emp: "employee (streams wA 0) = 14"
    using demo_signed by blast
  have e0: "employee (streams demo 0) = 14" by (simp add: demo_def new_stream_def)
  note t1 = nonce_replay_protection [where r = demo_recover and env = "at_time 100 9"
      and sid = 0 and n = 0 and d = 300 and fee = 0 and sg = "[14]" and w = demo and w' = wA
      and wl = ?wl and a = 14 and c = "Call_withdrawSigned 0 0 300 0 [14]"]
  note t2 = nonce_replay_protection [where r = demo_recover and env = "at_time 100 9"
      and sid = 0 and n = 7 and d = 300 and fee = 0 and sg = "[14]" and w = demo and w' = wA
      and wl = ?wl and a = 14 and c = "Call_withdrawSigned 0 0 300 0 [14]"]
  note t3 = nonce_replay_protection [where r = demo_recover and env = "at_time 100 9"
      and sid = 0 and n = 7 and d = 50 and fee = 0 and sg = "[14]" and w = demo and w' = wA
      and wl = ?wl and a = 14 and c = "Call_withdrawSigned 0 0 300 0 [14]"]
  from t1 wA have n1: "unat (nonces wA (employee (streams demo 0))) = unat (0::u256) + 1"
    and rp: "\<forall>wl. reach demo_recover wA wl \<longrightarrow>
           (\<forall>r2 env2 sid2 d2 fee2 sg2.
               employee (streams wl sid2) = employee (streams demo 0) \<longrightarrow>
               (\<exists>e. withdrawSigned r2 env2 sid2 0 d2 fee2 sg2 wl = Inl e))"
    by blast+
  have a: "unat (nonces wA 14) = 1" using n1 e0 by simp
  have b: "\<exists>e. withdrawSigned demo_recover (at_time 120 9) 0 0 300 0 [14] wA = Inl e"
    using rp [rule_format, OF reach_refl, of 0] emp e0 by simp
  have c: "withdrawSigned demo_recover (at_time 100 9) 0 7 300 0 [14] demo = Inl InvalidNonce"
    using t2 by (simp add: demo_def at_time_def)
  have d: "withdrawSigned demo_recover (at_time 100 9) 0 7 50 0 [14] demo = Inl SignatureExpired"
    using t3 by (simp add: demo_def at_time_def)
  have "reach demo_recover demo ?wl" by (rule reach_call [OF reach_refl])
  with t1 have e: "unat (nonces demo 14) \<le> unat (nonces ?wl 14)" by blast
  show ?thesis using wA a b c d e by blast
qed

section \<open>The relayer fee\<close>

lemma nset_fields:
  "sm_self (nset X w) = sm_self w" "sm_owner (nset X w) = sm_owner w"
  "taxVault (nset X w) = taxVault w" "yieldVault (nset X w) = yieldVault w"
  "nextStreamId (nset X w) = nextStreamId w" "sponsorshipPool (nset X w) = sponsorshipPool w"
  "streams (nset X w) = streams w" "nonces (nset X w) = X"
  "yv_owner (nset X w) = yv_owner w" "totalPrincipal (nset X w) = totalPrincipal w"
  "yieldRateBps (nset X w) = yieldRateBps w" "lastUpdate (nset X w) = lastUpdate w"
  "accumulatedYield (nset X w) = accumulatedYield w" "balances (nset X w) = balances w"
  "allowances (nset X w) = allowances w" "events (nset X w) = events w"
  by (simp_all add: nset_def)

lemma nset_updates:
  "(nset X w)\<lparr>balances := b\<rparr> = nset X (w\<lparr>balances := b\<rparr>)"
  "(nset X w)\<lparr>events := ev\<rparr> = nset X (w\<lparr>events := ev\<rparr>)"
  "(nset X w)\<lparr>accumulatedYield := y\<rparr> = nset X (w\<lparr>accumulatedYield := y\<rparr>)"
  "(nset X w)\<lparr>totalPrincipal := p\<rparr> = nset X (w\<lparr>totalPrincipal := p\<rparr>)"
  "(nset X w)\<lparr>lastUpdate := l\<rparr> = nset X (w\<lparr>lastUpdate := l\<rparr>)"
  "(nset X w)\<lparr>streams := s\<rparr> = nset X (w\<lparr>streams := s\<rparr>)"
  "(nset X w)\<lparr>sponsorshipPool := q\<rparr> = nset X (w\<lparr>sponsorshipPool := q\<rparr>)"
  "emit e (nset X w) = nset X (emit e w)"
  by (simp_all add: nset_def emit_def)

lemma pendingYield_nset: "pendingYield env (nset X w) = pendingYield env w"
  by (simp add: pendingYield_def nset_fields cong: sum.case_cong if_cong)

lemma erc20_move_nset:
  "erc20_move s d a (nset X w)
     = (case erc20_move s d a w of Inl e \<Rightarrow> Inl e | Inr w' \<Rightarrow> Inr (nset X w'))"
  by (simp add: erc20_move_def Let_def nset_fields nset_updates split: sum.splits)

lemma simulateYield_nset:
  "simulateYield env (nset X w)
     = (case simulateYield env w of Inl e \<Rightarrow> Inl e | Inr w' \<Rightarrow> Inr (nset X w'))"
  by (simp add: simulateYield_def pendingYield_nset nset_fields nset_updates split: sum.splits)

lemma yv_withdraw_nset:
  "yv_withdraw env a d (nset X w)
     = (case yv_withdraw env a d w of Inl e \<Rightarrow> Inl e | Inr w' \<Rightarrow> Inr (nset X w'))"
  by (simp add: yv_withdraw_def simulateYield_nset erc20_transfer_def erc20_move_nset
        nset_fields nset_updates split: sum.splits if_splits)


lemma executeWithdraw_nset:
  "executeWithdraw env sid (nset X w)
     = (case executeWithdraw env sid w of Inl e \<Rightarrow> Inl e | Inr w' \<Rightarrow> Inr (nset X w'))"
  by (simp add: executeWithdraw_def Let_def yv_withdraw_nset erc20_transfer_def
        erc20_move_nset nset_fields nset_updates split: sum.splits if_splits)


lemma erc20_move_others:
  "erc20_move s d a w = Inr w' \<Longrightarrow> x \<noteq> s \<Longrightarrow> x \<noteq> d \<Longrightarrow> balances w' x = balances w x"
  by (auto simp: erc20_move_def emit_def Let_def split: if_splits sum.splits)

lemma signed_core:
  assumes core: "withdrawSigned r env sid n d 0 sg w = Inr w0"
  shows "\<exists>wd. withdraw env sid w = Inr wd
      \<and> sm_self w \<noteq> 0
      \<and> (\<forall>fee. 0 < fee \<longrightarrow>
            withdrawSigned r env sid n d fee sg w =
              (if sponsorshipPool w < fee then Inl InsufficientSponsorship
               else
                 case erc20_move (sm_self w) (sender env) fee
                        (nset ((nonces w)(employee (streams w sid) := n + 1))
                           (wd\<lparr>sponsorshipPool := sponsorshipPool w - fee\<rparr>)) of
                   Inl e \<Rightarrow> Inl e
                 | Inr w3 \<Rightarrow>
                     Inr (emit (WithdrawnSigned sid (employee (streams w sid)) (sender env) fee) w3)))"
proof -
  let ?emp = "employee (streams w sid)"
  let ?N = "(nonces w)(?emp := n + 1)"
  from withdrawSigned_Inr [OF core] obtain w2
    where dl: "unat (timestamp env) \<le> unat d" and nn: "n = nonces w ?emp"
      and rc: "r sid n d sg = Inr ?emp" and fit: "unat n + 1 < 2 ^ 256"
      and w2: "executeWithdraw env sid (w\<lparr>nonces := ?N\<rparr>) = Inr w2"
    by blast
  have "executeWithdraw env sid (nset ?N w) = Inr w2" using w2 by (simp add: nset_def)
  then obtain wd where wd: "executeWithdraw env sid w = Inr wd" and w2eq: "w2 = nset ?N wd"
    by (auto simp: executeWithdraw_nset split: sum.splits)
  note fr = executeWithdraw_frame [OF wd]
  from executeWithdraw_Inr [OF wd] obtain net wt w4
    where "erc20_move (sm_self w) (employee (streams w sid)) net wt = Inr w4" by blast
  from erc20_move_Inr [OF this] have self: "sm_self w \<noteq> 0" by blast
  have ndl: "\<not> d < timestamp env" using dl by (simp add: word_less_nat_alt)
  have c1: "checked_add n 1 = Inr (n + 1)" using fit checked_add_ok [of n 1] by simp
  have paid: "withdrawSigned r env sid n d fee sg w =
              (if sponsorshipPool w < fee then Inl InsufficientSponsorship
               else
                 case erc20_move (sm_self w) (sender env) fee
                        (nset ?N (wd\<lparr>sponsorshipPool := sponsorshipPool w - fee\<rparr>)) of
                   Inl e \<Rightarrow> Inl e
                 | Inr w3 \<Rightarrow> Inr (emit (WithdrawnSigned sid ?emp (sender env) fee) w3))"
    if pos: "0 < fee" for fee
  proof (cases "sponsorshipPool w < fee")
    case True
    then show ?thesis
      using pos ndl nn rc c1 w2 w2eq fr
      by (simp add: withdrawSigned_def Let_def nset_fields)
  next
    case False
    then have "unat fee \<le> unat (sponsorshipPool w)" by (simp add: word_less_nat_alt)
    from checked_sub_ok [OF this]
    have cs: "checked_sub (sponsorshipPool w) fee = Inr (sponsorshipPool w - fee)" by simp
    show ?thesis
      using False pos ndl nn rc c1 w2 w2eq fr cs
      by (simp add: withdrawSigned_def Let_def nset_fields nset_updates erc20_transfer_def
            split: sum.splits)
  qed
  show ?thesis using wd self paid by (auto simp: withdraw_def)
qed

text \<open>
  C6, as stated, fails when the request does not get as far as the fee: with a fee of 60
  against a pool of 50, a request signed by someone other than the employee is rejected
  with \<open>InvalidSignature\<close>, not \<open>InsufficientSponsorship\<close>.
\<close>

theorem relayer_fee_counterexample:
  "(0::u256) < 60 \<and> sponsorshipPool demo < 60
   \<and> withdrawSigned demo_recover (at_time 100 9) 0 0 300 60 [15] demo = Inl InvalidSignature
   \<and> withdrawSigned demo_recover (at_time 100 9) 0 0 300 60 [15] demo
       \<noteq> Inl InsufficientSponsorship"
  by (simp add: withdrawSigned_def demo_recover_def at_time_def demo_def new_stream_def)

lemma withdrawSigned_fee_irrelevant:
  assumes fail: "withdrawSigned r env sid n d 0 sg w = Inl e"
  shows "withdrawSigned r env sid n d fee sg w = Inl e"
proof (cases "d < timestamp env")
  case True
  then show ?thesis using fail by (simp add: withdrawSigned_def)
next
  case nd: False
  show ?thesis
  proof (cases "n = nonces w (employee (streams w sid))")
    case False
    then show ?thesis using fail nd by (simp add: withdrawSigned_def Let_def)
  next
    case nn: True
    show ?thesis
    proof (cases "r sid n d sg")
      case (Inl x)
      then show ?thesis using fail nd nn by (simp add: withdrawSigned_def Let_def)
    next
      case rc: (Inr signer)
      show ?thesis
      proof (cases "signer = employee (streams w sid)")
        case False
        then show ?thesis using fail nd nn rc by (simp add: withdrawSigned_def Let_def)
      next
        case sg: True
        show ?thesis
        proof (cases "checked_add n 1")
          case (Inl x)
          then show ?thesis using fail nd nn rc sg by (simp add: withdrawSigned_def Let_def)
        next
          case ca: (Inr n1)
          show ?thesis
          proof (cases "executeWithdraw env sid
                          (w\<lparr>nonces := (nonces w)(employee (streams w sid) := n1)\<rparr>)")
            case (Inl x)
            then show ?thesis using fail nd nn rc sg ca by (simp add: withdrawSigned_def Let_def)
          next
            case (Inr w2)
            then have False using fail nd nn rc sg ca by (simp add: withdrawSigned_def Let_def)
            then show ?thesis ..
          qed
        qed
      qed
    qed
  qed
qed

text \<open>
  C6, amended. In \<^verbatim>\<open>withdrawSigned\<close> with a relayer fee \<open>> 0\<close>:

  \<^item> a request that fails without a fee (at its deadline, nonce or signature check, or in
    the withdrawal itself) fails with the same error with the fee, whatever the
    sponsorship pool holds, and the transaction leaves the world as it was;

  \<^item> a request that succeeds without a fee (then the direct \<^verbatim>\<open>withdraw\<close> of the stream
    at that moment succeeds too, giving \<open>wd\<close>) fails with \<open>InsufficientSponsorship\<close>
    when the pool holds less than the fee, and the transaction leaves the world as it
    was. When the pool covers the fee, the outcome depends on the StreamManager's tokens
    after the withdrawal, the caller not being the zero address: fewer tokens than the
    fee make the call fail with the token's revert
    \<^verbatim>\<open>ERC20: transfer amount exceeds balance\<close>, again with nothing persisting; enough
    tokens (and room for the fee in the caller's token balance) make it succeed;

  \<^item> on every success the pool covered the fee and is lower by exactly the fee, the fee is
    transferred from the StreamManager to the caller, and everything else (the stream,
    the vault, the events and payments of the withdrawal, every other balance, so the
    employee's net payout) is as in the direct withdrawal: the fee is not taken from the
    employee.
\<close>

theorem relayer_fee_from_pool:
  assumes fee: "0 < fee"
  shows "(\<forall>e. withdrawSigned r env sid n d 0 sg w = Inl e \<longrightarrow>
            withdrawSigned r env sid n d fee sg w = Inl e
          \<and> transact r env (Call_withdrawSigned sid n d fee sg) w = w)
     \<and> (\<forall>w0. withdrawSigned r env sid n d 0 sg w = Inr w0 \<longrightarrow>
          (\<exists>wd. withdraw env sid w = Inr wd
                \<and> (unat (sponsorshipPool w) < unat fee \<longrightarrow>
                      withdrawSigned r env sid n d fee sg w = Inl InsufficientSponsorship
                    \<and> transact r env (Call_withdrawSigned sid n d fee sg) w = w)
                \<and> (unat fee \<le> unat (sponsorshipPool w) \<longrightarrow> sender env \<noteq> 0 \<longrightarrow>
                      unat (balances wd (sm_self w)) < unat fee \<longrightarrow>
                      withdrawSigned r env sid n d fee sg w
                        = Inl (Revert ''ERC20: transfer amount exceeds balance'')
                    \<and> transact r env (Call_withdrawSigned sid n d fee sg) w = w)
                \<and> (unat fee \<le> unat (sponsorshipPool w) \<longrightarrow> sender env \<noteq> 0 \<longrightarrow>
                      unat fee \<le> unat (balances wd (sm_self w)) \<longrightarrow>
                      unat (balances wd (sender env)) + unat fee < 2 ^ 256 \<longrightarrow>
                      (\<exists>w'. withdrawSigned r env sid n d fee sg w = Inr w'))
                \<and> (\<forall>w'. withdrawSigned r env sid n d fee sg w = Inr w' \<longrightarrow>
                        unat fee \<le> unat (sponsorshipPool w)
                      \<and> unat fee \<le> unat (balances wd (sm_self w))
                      \<and> unat (sponsorshipPool w') = unat (sponsorshipPool w) - unat fee
                      \<and> events w' = events wd @ [Transfer (sm_self w) (sender env) fee,
                            WithdrawnSigned sid (employee (streams w sid)) (sender env) fee]
                      \<and> streams w' = streams wd
                      \<and> totalPrincipal w' = totalPrincipal wd
                      \<and> accumulatedYield w' = accumulatedYield wd
                      \<and> (\<forall>a. a \<noteq> sm_self w \<longrightarrow> a \<noteq> sender env \<longrightarrow> balances w' a = balances wd a)
                      \<and> (sender env \<noteq> sm_self w \<longrightarrow>
                            unat (balances w' (sender env)) = unat (balances wd (sender env)) + unat fee
                          \<and> unat (balances w' (sm_self w)) = unat (balances wd (sm_self w)) - unat fee))))"
proof -
  have early: "withdrawSigned r env sid n d fee sg w = Inl e
          \<and> transact r env (Call_withdrawSigned sid n d fee sg) w = w"
    if "withdrawSigned r env sid n d 0 sg w = Inl e" for e
    using withdrawSigned_fee_irrelevant [OF that, of fee] by (simp add: transact_def)
  have paid: "(\<exists>wd. withdraw env sid w = Inr wd
      \<and> (unat (sponsorshipPool w) < unat fee \<longrightarrow>
            withdrawSigned r env sid n d fee sg w = Inl InsufficientSponsorship
          \<and> transact r env (Call_withdrawSigned sid n d fee sg) w = w)
      \<and> (unat fee \<le> unat (sponsorshipPool w) \<longrightarrow> sender env \<noteq> 0 \<longrightarrow>
            unat (balances wd (sm_self w)) < unat fee \<longrightarrow>
            withdrawSigned r env sid n d fee sg w
              = Inl (Revert ''ERC20: transfer amount exceeds balance'')
          \<and> transact r env (Call_withdrawSigned sid n d fee sg) w = w)
      \<and> (unat fee \<le> unat (sponsorshipPool w) \<longrightarrow> sender env \<noteq> 0 \<longrightarrow>
            unat fee \<le> unat (balances wd (sm_self w)) \<longrightarrow>
            unat (balances wd (sender env)) + unat fee < 2 ^ 256 \<longrightarrow>
            (\<exists>w'. withdrawSigned r env sid n d fee sg w = Inr w'))
      \<and> (\<forall>w'. withdrawSigned r env sid n d fee sg w = Inr w' \<longrightarrow>
              unat fee \<le> unat (sponsorshipPool w)
            \<and> unat fee \<le> unat (balances wd (sm_self w))
            \<and> unat (sponsorshipPool w') = unat (sponsorshipPool w) - unat fee
            \<and> events w' = events wd @ [Transfer (sm_self w) (sender env) fee,
                  WithdrawnSigned sid (employee (streams w sid)) (sender env) fee]
            \<and> streams w' = streams wd
            \<and> totalPrincipal w' = totalPrincipal wd
            \<and> accumulatedYield w' = accumulatedYield wd
            \<and> (\<forall>a. a \<noteq> sm_self w \<longrightarrow> a \<noteq> sender env \<longrightarrow> balances w' a = balances wd a)
            \<and> (sender env \<noteq> sm_self w \<longrightarrow>
                  unat (balances w' (sender env)) = unat (balances wd (sender env)) + unat fee
                \<and> unat (balances w' (sm_self w)) = unat (balances wd (sm_self w)) - unat fee)))"
    if core: "withdrawSigned r env sid n d 0 sg w = Inr w0" for w0
  proof -
    let ?emp = "employee (streams w sid)"
    let ?N = "(nonces w)(?emp := n + 1)"
    from signed_core [OF core] fee obtain wd
      where wd: "withdraw env sid w = Inr wd" and self: "sm_self w \<noteq> 0"
        and eq: "withdrawSigned r env sid n d fee sg w =
                (if sponsorshipPool w < fee then Inl InsufficientSponsorship
                 else
                   case erc20_move (sm_self w) (sender env) fee
                          (nset ?N (wd\<lparr>sponsorshipPool := sponsorshipPool w - fee\<rparr>)) of
                     Inl e \<Rightarrow> Inl e
                   | Inr w3 \<Rightarrow> Inr (emit (WithdrawnSigned sid ?emp (sender env) fee) w3))"
      by blast
    let ?wp = "nset ?N (wd\<lparr>sponsorshipPool := sponsorshipPool w - fee\<rparr>)"
    have short: "withdrawSigned r env sid n d fee sg w = Inl InsufficientSponsorship
            \<and> transact r env (Call_withdrawSigned sid n d fee sg) w = w"
      if "unat (sponsorshipPool w) < unat fee"
      using that eq by (simp add: word_less_nat_alt transact_def)
    have unbacked: "withdrawSigned r env sid n d fee sg w
              = Inl (Revert ''ERC20: transfer amount exceeds balance'')
          \<and> transact r env (Call_withdrawSigned sid n d fee sg) w = w"
      if le: "unat fee \<le> unat (sponsorshipPool w)" and nz: "sender env \<noteq> 0"
        and bal: "unat (balances wd (sm_self w)) < unat fee"
    proof -
      have "erc20_move (sm_self w) (sender env) fee ?wp
              = Inl (Revert ''ERC20: transfer amount exceeds balance'')"
        using self nz bal by (simp add: erc20_move_def nset_fields word_less_nat_alt)
      moreover have "\<not> sponsorshipPool w < fee" using le by (simp add: word_less_nat_alt)
      ultimately show ?thesis using eq by (simp add: transact_def)
    qed
    have enough: "\<exists>w'. withdrawSigned r env sid n d fee sg w = Inr w'"
      if le: "unat fee \<le> unat (sponsorshipPool w)" and nz: "sender env \<noteq> 0"
        and bal: "unat fee \<le> unat (balances wd (sm_self w))"
        and room: "unat (balances wd (sender env)) + unat fee < 2 ^ 256"
    proof -
      have "\<exists>w3. erc20_move (sm_self w) (sender env) fee ?wp = Inr w3"
        using self nz bal room by (intro erc20_move_ok) (simp_all add: nset_fields)
      moreover have "\<not> sponsorshipPool w < fee" using le by (simp add: word_less_nat_alt)
      ultimately show ?thesis using eq by auto
    qed
    have effects: "unat fee \<le> unat (sponsorshipPool w)
              \<and> unat fee \<le> unat (balances wd (sm_self w))
              \<and> unat (sponsorshipPool w') = unat (sponsorshipPool w) - unat fee
              \<and> events w' = events wd @ [Transfer (sm_self w) (sender env) fee,
                    WithdrawnSigned sid ?emp (sender env) fee]
              \<and> streams w' = streams wd
              \<and> totalPrincipal w' = totalPrincipal wd
              \<and> accumulatedYield w' = accumulatedYield wd
              \<and> (\<forall>a. a \<noteq> sm_self w \<longrightarrow> a \<noteq> sender env \<longrightarrow> balances w' a = balances wd a)
              \<and> (sender env \<noteq> sm_self w \<longrightarrow>
                    unat (balances w' (sender env)) = unat (balances wd (sender env)) + unat fee
                  \<and> unat (balances w' (sm_self w)) = unat (balances wd (sm_self w)) - unat fee)"
      if ok: "withdrawSigned r env sid n d fee sg w = Inr w'" for w'
    proof -
      from ok eq have nlt: "\<not> sponsorshipPool w < fee" by (auto split: if_splits)
      then have le: "unat fee \<le> unat (sponsorshipPool w)" by (simp add: word_less_nat_alt)
      from ok eq nlt obtain w3 where mv: "erc20_move (sm_self w) (sender env) fee ?wp = Inr w3"
        and w': "w' = emit (WithdrawnSigned sid ?emp (sender env) fee) w3"
        by (auto split: sum.splits)
      from erc20_move_Inr [OF mv] obtain B
        where w3: "w3 = ?wp\<lparr>balances := B, events := events ?wp @ [Transfer (sm_self w) (sender env) fee]\<rparr>"
          and cover0: "unat fee \<le> unat (balances ?wp (sm_self w))"
          and B: "sm_self w \<noteq> sender env \<longrightarrow>
                    unat (B (sm_self w)) = unat (balances ?wp (sm_self w)) - unat fee \<and>
                    unat (B (sender env)) = unat (balances ?wp (sender env)) + unat fee"
        by blast
      have oth: "\<forall>a. a \<noteq> sm_self w \<longrightarrow> a \<noteq> sender env \<longrightarrow> balances w3 a = balances ?wp a"
        using erc20_move_others [OF mv] by blast
      have pool: "unat (sponsorshipPool w') = unat (sponsorshipPool w) - unat fee"
        using w' w3 le by (simp add: emit_def nset_def unat_sub word_le_nat_alt)
      have ev: "events w' = events wd @ [Transfer (sm_self w) (sender env) fee,
                    WithdrawnSigned sid ?emp (sender env) fee]"
        using w' w3 by (simp add: emit_def nset_def)
      have same: "streams w' = streams wd" "totalPrincipal w' = totalPrincipal wd"
        "accumulatedYield w' = accumulatedYield wd"
        using w' w3 by (simp_all add: emit_def nset_def)
      have b1: "\<forall>a. a \<noteq> sm_self w \<longrightarrow> a \<noteq> sender env \<longrightarrow> balances w' a = balances wd a"
        using oth w' by (simp add: emit_def nset_def)
      have b2: "sender env \<noteq> sm_self w \<longrightarrow>
                    unat (balances w' (sender env)) = unat (balances wd (sender env)) + unat fee
                  \<and> unat (balances w' (sm_self w)) = unat (balances wd (sm_self w)) - unat fee"
        using B w' w3 by (auto simp: emit_def nset_def)
      have cover: "unat fee \<le> unat (balances wd (sm_self w))"
        using cover0 by (simp add: nset_def)
      show ?thesis using le cover pool ev same b1 b2 by blast
    qed
    show ?thesis using wd short unbacked enough effects by blast
  qed
  show ?thesis using early paid by blast
qed


lemma demo_direct:
  "\<exists>wd. withdraw (at_time 100 9) 0 demo = Inr wd
      \<and> unat (balances wd 1) = 50 \<and> unat (balances wd 9) = 0"
  by (simp add: demo_eval)

lemma demo_unsigned:
  "withdrawSigned demo_recover (at_time 100 9) 0 0 300 0 [15] demo = Inl InvalidSignature"
  by (simp add: withdrawSigned_def demo_recover_def at_time_def demo_def new_stream_def)

theorem relayer_fee_from_pool_witness:
  "withdrawSigned demo_recover (at_time 100 9) 0 0 300 60 [15] demo = Inl InvalidSignature
   \<and> withdrawSigned demo_recover (at_time 100 9) 0 0 300 60 [14] demo = Inl InsufficientSponsorship
   \<and> transact demo_recover (at_time 100 9) (Call_withdrawSigned 0 0 300 60 [14]) demo = demo
   \<and> (\<exists>wd w'. withdraw (at_time 100 9) 0 demo = Inr wd
         \<and> withdrawSigned demo_recover (at_time 100 9) 0 0 300 10 [14] demo = Inr w'
         \<and> unat (sponsorshipPool w') = 40
         \<and> events w' = events wd @ [Transfer 1 9 10, WithdrawnSigned 0 14 9 10]
         \<and> balances w' 14 = balances wd 14
         \<and> unat (balances w' 9) = unat (balances wd 9) + 10)"
proof -
  obtain w0 where core: "withdrawSigned demo_recover (at_time 100 9) 0 0 300 0 [14] demo = Inr w0"
    using demo_signed by blast
  obtain wd where wd: "withdraw (at_time 100 9) 0 demo = Inr wd"
    and bal: "unat (balances wd 1) = 50" "unat (balances wd 9) = 0"
    using demo_direct by blast
  have f60: "(0::u256) < 60" and f10: "(0::u256) < 10" by simp_all
  have facts: "unat (sponsorshipPool demo) = 50" "sm_self demo = 1" "sender (at_time 100 9) = 9"
    "employee (streams demo 0) = 14"
    by (simp_all add: demo_def at_time_def new_stream_def)
  note t15 = relayer_fee_from_pool [OF f60, where r = demo_recover and env = "at_time 100 9"
      and sid = 0 and n = 0 and d = 300 and sg = "[15]" and w = demo]
  note t60 = relayer_fee_from_pool [OF f60, where r = demo_recover and env = "at_time 100 9"
      and sid = 0 and n = 0 and d = 300 and sg = "[14]" and w = demo]
  note t10 = relayer_fee_from_pool [OF f10, where r = demo_recover and env = "at_time 100 9"
      and sid = 0 and n = 0 and d = 300 and sg = "[14]" and w = demo]
  note p60 = t60 [THEN conjunct2, rule_format, OF core]
  note p10 = t10 [THEN conjunct2, rule_format, OF core]
  from t15 [THEN conjunct1, rule_format, OF demo_unsigned]
  have z: "withdrawSigned demo_recover (at_time 100 9) 0 0 300 60 [15] demo = Inl InvalidSignature"
    by simp
  from p60 wd facts
  have a: "withdrawSigned demo_recover (at_time 100 9) 0 0 300 60 [14] demo = Inl InsufficientSponsorship
      \<and> transact demo_recover (at_time 100 9) (Call_withdrawSigned 0 0 300 60 [14]) demo = demo"
    by auto
  have one: "P wd" if "\<exists>x. withdraw (at_time 100 9) 0 demo = Inr x \<and> P x" for P
    using that wd by auto
  note q10 = one [OF p10]
  note ex = q10 [THEN conjunct2, THEN conjunct2, THEN conjunct1, rule_format]
  note eff = q10 [THEN conjunct2, THEN conjunct2, THEN conjunct2, rule_format]
  have "\<exists>w'. withdrawSigned demo_recover (at_time 100 9) 0 0 300 10 [14] demo = Inr w'"
    by (rule ex) (simp_all add: facts bal)
  then obtain w' where w': "withdrawSigned demo_recover (at_time 100 9) 0 0 300 10 [14] demo = Inr w'"
    by blast
  from eff [OF w'] facts
  have b: "unat (sponsorshipPool w') = 40
         \<and> events w' = events wd @ [Transfer 1 9 10, WithdrawnSigned 0 14 9 10]
         \<and> balances w' 14 = balances wd 14
         \<and> unat (balances w' 9) = unat (balances wd 9) + 10"
    by simp
  show ?thesis using z a wd w' b by blast
qed

end
